theory Spec2Isabelle
  imports Main "HOL-Library.Word"
begin

section \<open>Data model of \<open>labProject.py\<close>\<close>

text \<open>
  The program is one class, \<open>ImageProcessingApp\<close>, whose attributes are mutated by
  Qt event handlers. An image is a numpy array of unsigned bytes: its \<open>shape\<close> tuple
  and its bytes in row-major order (the channel index runs fastest).
\<close>

record ndarray =
  shape :: "nat list"
  data :: "8 word list"

text \<open>
  Arrays are objects: \<open>cv2.line\<close> draws into \<open>self.processed_image\<close> in place, while
  the history and \<open>original_image\<close> hold other array objects made by \<open>.copy()\<close>.
  The model keeps the arrays that the attributes refer to in a store; a reference is
  a position in the store and a new array is put at the end of it.
\<close>

type_synonym ref = nat

text \<open>Python exceptions, each with the text \<open>str(e)\<close> gives.\<close>

datatype exn =
    cv2_error string
  | IndexError string
  | AttributeError string
  | ValueError string
  | ZeroDivisionError string
  | Exception string

fun str :: "exn \<Rightarrow> string" where
  "str (cv2_error m) = m"
| "str (IndexError m) = m"
| "str (AttributeError m) = m"
| "str (ValueError m) = m"
| "str (ZeroDivisionError m) = m"
| "str (Exception m) = m"

text \<open>The three kinds of \<open>QMessageBox\<close> the handlers show, with title and text.\<close>

datatype message =
    Warning string string
  | Critical string string
  | Information string string

text \<open>The conversion codes of \<open>cv2.cvtColor\<close> that the program uses.\<close>

datatype color_code =
    COLOR_BGR2GRAY
  | COLOR_GRAY2BGR
  | COLOR_BGR2HSV
  | COLOR_HSV2BGR
  | COLOR_BGR2RGB

text \<open>
  The functions of the OpenCV binding that the program calls are not part of the
  program. They are a parameter of every handler: each takes the array contents
  and its other arguments and either raises or returns the contents of the result
  (\<open>line\<close>: the contents of its first argument after drawing).
\<close>

record cv2 =
  cvtColor :: "ndarray \<Rightarrow> color_code \<Rightarrow> exn + ndarray"
  GaussianBlur :: "ndarray \<Rightarrow> int \<times> int \<Rightarrow> int \<Rightarrow> exn + ndarray"
  Canny :: "ndarray \<Rightarrow> int \<Rightarrow> int \<Rightarrow> exn + ndarray"
  filter2D :: "ndarray \<Rightarrow> int \<Rightarrow> int list list \<Rightarrow> exn + ndarray"
  convertScaleAbs :: "ndarray \<Rightarrow> int \<Rightarrow> int \<Rightarrow> exn + ndarray"
  line :: "ndarray \<Rightarrow> int \<times> int \<Rightarrow> int \<times> int \<Rightarrow> int \<times> int \<times> int \<Rightarrow> int \<Rightarrow> exn + ndarray"

text \<open>
  The attributes set in \<open>__init__\<close> (lines 18 to 28), the two sliders, the size of
  \<open>image_label\<close> and whether it has a pixmap, and the message boxes shown so far.
  \<open>cap\<close> is \<open>None\<close> or a capture object that is open or not; \<open>timer\<close> is \<open>None\<close>
  while the attribute does not exist, else whether the timer runs.
  \<open>drawing_color\<close> and \<open>drawing_thickness\<close> are never assigned after \<open>__init__\<close>
  and are constants below.
\<close>

record app =
  heap :: "ndarray list"
  original_image :: "ref option"
  processed_image :: "ref option"
  image_history :: "ref list"
  current_history_index :: int
  is_live_preview :: bool
  cap :: "bool option"
  timer :: "bool option"
  is_drawing :: bool
  last_point :: "(int \<times> int) option"
  blur_slider :: int
  brightness_slider :: int
  label_size :: "int \<times> int"
  pixmap :: bool
  messages :: "message list"

definition drawing_color :: "int \<times> int \<times> int" where
  "drawing_color = (0, 255, 0)"

definition drawing_thickness :: int where
  "drawing_thickness = 2"

text \<open>
  The state after \<open>__init__\<close>: no arrays, empty history, index \<open>-1\<close>, the sliders
  at their initial values (lines 193 to 194 and 217 to 218), the label at its
  minimum size (line 58).
\<close>

definition init :: app where
  "init = \<lparr> heap = [], original_image = None, processed_image = None,
     image_history = [], current_history_index = - 1,
     is_live_preview = False, cap = None, timer = None,
     is_drawing = False, last_point = None,
     blur_slider = 5, brightness_slider = 0,
     label_size = (1200, 900), pixmap = False, messages = [] \<rparr>"

section \<open>Store and Python primitives\<close>

definition deref :: "app \<Rightarrow> ref \<Rightarrow> ndarray" where
  "deref s r = heap s ! r"

definition alloc :: "ndarray \<Rightarrow> app \<Rightarrow> ref \<times> app" where
  "alloc a s = (length (heap s), s\<lparr>heap := heap s @ [a]\<rparr>)"

text \<open>\<open>a.copy()\<close>: a new array object with the same contents.\<close>

definition copy :: "ref \<Rightarrow> app \<Rightarrow> ref \<times> app" where
  "copy r s = alloc (deref s r) s"

text \<open>In-place change of the array at \<open>r\<close>.\<close>

definition store :: "ref \<Rightarrow> ndarray \<Rightarrow> app \<Rightarrow> app" where
  "store r a s = s\<lparr>heap := (heap s)[r := a]\<rparr>"

text \<open>\<open>xs[:k]\<close>: a negative stop counts from the end and is clamped at 0.\<close>

definition py_slice_to :: "'a list \<Rightarrow> int \<Rightarrow> 'a list" where
  "py_slice_to xs k =
     (if k < 0 then take (nat (int (length xs) + k)) xs else take (nat k) xs)"

text \<open>\<open>xs[i]\<close>: a negative index counts from the end; out of range raises.\<close>

definition py_getitem :: "'a list \<Rightarrow> int \<Rightarrow> exn + 'a" where
  "py_getitem xs i =
     (let n = int (length xs); j = (if i < 0 then i + n else i)
      in if 0 \<le> j \<and> j < n then Inr (xs ! nat j)
         else Inl (IndexError ''list index out of range''))"

text \<open>
  A handler is a procedure on the state. It returns the state it leaves and the
  exception that left it, if one did: what was assigned before a \<open>raise\<close> stays
  assigned.
\<close>

type_synonym proc = "app \<Rightarrow> app \<times> exn option"

definition seq :: "proc \<Rightarrow> proc \<Rightarrow> proc" where
  "seq p q s = (case p s of (s', None) \<Rightarrow> q s' | (s', Some e) \<Rightarrow> (s', Some e))"

definition try_except :: "proc \<Rightarrow> (exn \<Rightarrow> proc) \<Rightarrow> proc" where
  "try_except p h s = (case p s of (s', None) \<Rightarrow> (s', None) | (s', Some e) \<Rightarrow> h e s')"

definition show_message :: "message \<Rightarrow> app \<Rightarrow> app" where
  "show_message m s = s\<lparr>messages := messages s @ [m]\<rparr>"

section \<open>Display and history (lines 314 to 344)\<close>

text \<open>
  \<open>update_image_display\<close>: converts a three-channel image for display, unpacks
  \<open>img.shape[:2]\<close> and sets the label's pixmap. The pixels of the pixmap are not
  part of the state.
\<close>

definition update_image_display :: "cv2 \<Rightarrow> proc" where
  "update_image_display cv s =
     (case processed_image s of
        None \<Rightarrow> (s, None)
      | Some p \<Rightarrow>
          (case (if length (shape (deref s p)) = 3 \<and> shape (deref s p) ! 2 = 3
                 then cvtColor cv (deref s p) COLOR_BGR2RGB else Inr (deref s p)) of
             Inl e \<Rightarrow> (s, Some e)
           | Inr img \<Rightarrow>
               if length (take 2 (shape img)) \<noteq> 2
               then (s, Some (ValueError ''not enough values to unpack''))
               else (s\<lparr>pixmap := True\<rparr>, None)))"

definition add_to_history :: "app \<Rightarrow> app" where
  "add_to_history s =
     (case processed_image s of
        None \<Rightarrow> s
      | Some p \<Rightarrow>
          (let s1 = s\<lparr>image_history :=
                      py_slice_to (image_history s) (current_history_index s + 1)\<rparr>;
               (c, s2) = copy p s1;
               s3 = s2\<lparr>image_history := image_history s2 @ [c]\<rparr>
           in s3\<lparr>current_history_index := int (length (image_history s3)) - 1\<rparr>))"

text \<open>
  \<open>self.processed_image = self.image_history[self.current_history_index].copy()\<close>
  followed by the display update, shared by \<open>undo\<close> and \<open>redo\<close>.
\<close>

definition load_current :: "cv2 \<Rightarrow> proc" where
  "load_current cv s =
     (case py_getitem (image_history s) (current_history_index s) of
        Inl e \<Rightarrow> (s, Some e)
      | Inr r \<Rightarrow>
          (let (c, s1) = copy r s
           in update_image_display cv (s1\<lparr>processed_image := Some c\<rparr>)))"

definition undo :: "cv2 \<Rightarrow> proc" where
  "undo cv s =
     (if current_history_index s > 0
      then load_current cv (s\<lparr>current_history_index := current_history_index s - 1\<rparr>)
      else (s, None))"

definition redo :: "cv2 \<Rightarrow> proc" where
  "redo cv s =
     (if current_history_index s < int (length (image_history s)) - 1
      then load_current cv (s\<lparr>current_history_index := current_history_index s + 1\<rparr>)
      else (s, None))"

section \<open>Filters (lines 269 to 304)\<close>

text \<open>
  \<open>self.processed_image = f(self.processed_image)\<close> for a library call \<open>f\<close>: when \<open>f\<close>
  raises nothing is assigned; otherwise the attribute refers to the new array that
  \<open>f\<close> returned. The library rejects \<open>None\<close> as an image.
\<close>

definition assign_processed :: "(ndarray \<Rightarrow> exn + ndarray) \<Rightarrow> proc" where
  "assign_processed f s =
     (case processed_image s of
        None \<Rightarrow> (s, Some (cv2_error ''src is not a numpy array''))
      | Some p \<Rightarrow>
          (case f (deref s p) of
             Inl e \<Rightarrow> (s, Some e)
           | Inr a \<Rightarrow> (let (r, s1) = alloc a s in (s1\<lparr>processed_image := Some r\<rparr>, None))))"

text \<open>Running \<open>g\<close> on the result of a call that may raise.\<close>

definition and_then :: "exn + 'a \<Rightarrow> ('a \<Rightarrow> exn + 'b) \<Rightarrow> exn + 'b" where
  "and_then x g = (case x of Inl e \<Rightarrow> Inl e | Inr a \<Rightarrow> g a)"

text \<open>
  Lines 279 to 284: the kernel size read from the slider, raised to 1 and then to
  the next odd number.
\<close>

definition kernel_size :: "int \<Rightarrow> int" where
  "kernel_size v =
     (let k = v;
          k = (if k < 1 then 1 else k);
          k = (if k mod 2 = 0 then k + 1 else k)
      in k)"

text \<open>
  Line 298, \<open>hsv[:,:,0] = (hsv[:,:,0] + 30) % 180\<close>: on an array of three axes every
  byte of channel 0 is replaced; the addition is on unsigned bytes. Any other
  number of axes, or an empty last axis, raises \<open>IndexError\<close>.
\<close>

definition hue_byte :: "8 word \<Rightarrow> 8 word" where
  "hue_byte h = (h + 30) mod 180"

definition shift_hue :: "ndarray \<Rightarrow> exn + ndarray" where
  "shift_hue hsv =
     (if length (shape hsv) = 3 \<and> 0 < shape hsv ! 2
      then Inr (hsv\<lparr>data := map (\<lambda>(i, b). if i mod (shape hsv ! 2) = 0 then hue_byte b else b)
                                (enumerate 0 (data hsv))\<rparr>)
      else Inl (IndexError ''too many indices for array''))"

definition sharpen_kernel :: "int list list" where
  "sharpen_kernel = [[- 1, - 1, - 1], [- 1, 9, - 1], [- 1, - 1, - 1]]"

text \<open>The \<open>if\<close>/\<open>elif\<close> chain of lines 275 to 299; an unknown name matches no branch.\<close>

definition filter_body :: "cv2 \<Rightarrow> string \<Rightarrow> proc" where
  "filter_body cv filter_name s =
     (if filter_name = ''Grayscale'' then
        seq (assign_processed (\<lambda>img. cvtColor cv img COLOR_BGR2GRAY))
            (assign_processed (\<lambda>img. cvtColor cv img COLOR_GRAY2BGR)) s
      else if filter_name = ''Gaussian Blur'' then
        assign_processed
          (\<lambda>img. GaussianBlur cv img (kernel_size (blur_slider s), kernel_size (blur_slider s)) 0) s
      else if filter_name = ''Edge Detection'' then
        assign_processed
          (\<lambda>img. and_then (cvtColor cv img COLOR_BGR2GRAY)
             (\<lambda>gray. and_then (Canny cv gray 100 200)
                (\<lambda>edges. cvtColor cv edges COLOR_GRAY2BGR))) s
      else if filter_name = ''Sharpen'' then
        assign_processed (\<lambda>img. filter2D cv img (- 1) sharpen_kernel) s
      else if filter_name = ''Brightness/Contrast'' then
        assign_processed (\<lambda>img. convertScaleAbs cv img 1 (brightness_slider s)) s
      else if filter_name = ''Hue Adjustment'' then
        assign_processed
          (\<lambda>img. and_then (cvtColor cv img COLOR_BGR2HSV)
             (\<lambda>hsv. and_then (shift_hue hsv)
                (\<lambda>hsv. cvtColor cv hsv COLOR_HSV2BGR))) s
      else (s, None))"

definition apply_filter :: "cv2 \<Rightarrow> string \<Rightarrow> proc" where
  "apply_filter cv filter_name s =
     (if processed_image s = None
      then (show_message (Warning ''Warning'' ''Please open an image first!'') s, None)
      else try_except
             (seq (filter_body cv filter_name)
                (seq (update_image_display cv) (\<lambda>s. (add_to_history s, None))))
             (\<lambda>e s. (show_message (Critical ''Error'' (''Failed to apply filter: '' @ str e)) s, None))
             s)"

section \<open>Reset and clear (lines 306 to 312 and 409 to 413)\<close>

text \<open>\<open>self.processed_image = self.original_image.copy()\<close>.\<close>

definition restore_original :: "ref \<Rightarrow> app \<Rightarrow> app" where
  "restore_original orig s = (let (c, s1) = copy orig s in s1\<lparr>processed_image := Some c\<rparr>)"

definition reset_image :: "cv2 \<Rightarrow> proc" where
  "reset_image cv s =
     (case original_image s of
        Some orig \<Rightarrow>
          seq (update_image_display cv) (\<lambda>s. (add_to_history s, None)) (restore_original orig s)
      | None \<Rightarrow> (show_message (Warning ''Warning'' ''No image to reset!'') s, None))"

definition clear_drawing :: "cv2 \<Rightarrow> proc" where
  "clear_drawing cv s =
     (case original_image s of
        Some orig \<Rightarrow>
          seq (update_image_display cv) (\<lambda>s. (add_to_history s, None)) (restore_original orig s)
      | None \<Rightarrow> (s, None))"

section \<open>Drawing (lines 373 to 407)\<close>

text \<open>A \<open>QRect\<close>: left, top, width, height. A \<open>QPoint\<close> is a pair.\<close>

type_synonym qrect = "int \<times> int \<times> int \<times> int"

definition contains :: "qrect \<Rightarrow> int \<times> int \<Rightarrow> bool" where
  "contains r pt =
     (case r of (x, y, w, h) \<Rightarrow>
        x \<le> fst pt \<and> fst pt \<le> x + w - 1 \<and> y \<le> snd pt \<and> snd pt \<le> y + h - 1)"

text \<open>
  \<open>get_image_rect\<close> returns \<open>self.image_label.rect()\<close>, the whole label with its
  origin at \<open>(0, 0)\<close>, whenever there is an image and a pixmap.
\<close>

definition get_image_rect :: "app \<Rightarrow> qrect option" where
  "get_image_rect s =
     (if processed_image s = None then None
      else if \<not> pixmap s then None
      else Some (0, 0, fst (label_size s), snd (label_size s)))"

text \<open>
  \<open>int(n / d)\<close> on Python integers: true division, then truncation towards zero.
  The quotient is taken exactly here; the float that Python computes truncates to
  the same integer for coordinates and image sizes below \<open>2 ^ 26\<close>.
\<close>

definition py_int_truediv :: "int \<Rightarrow> int \<Rightarrow> exn + int" where
  "py_int_truediv n d =
     (if d = 0 then Inl (ZeroDivisionError ''division by zero'')
      else Inr (sgn n * sgn d * (\<bar>n\<bar> div \<bar>d\<bar>)))"

text \<open>\<open>img.shape[k]\<close> for \<open>k\<close> 0 or 1.\<close>

definition shape_at :: "ndarray \<Rightarrow> nat \<Rightarrow> exn + int" where
  "shape_at img k =
     (if k < length (shape img) then Inr (int (shape img ! k))
      else Inl (IndexError ''tuple index out of range''))"

text \<open>
  Lines 385 to 388 for one coordinate:
  \<open>int((pt - origin) * self.processed_image.shape[k] / extent)\<close>.
\<close>

definition image_coord :: "ndarray \<Rightarrow> int \<Rightarrow> int \<Rightarrow> nat \<Rightarrow> int \<Rightarrow> exn + int" where
  "image_coord img pt origin k extent =
     and_then (shape_at img k) (\<lambda>n. py_int_truediv ((pt - origin) * n) extent)"

text \<open>Lines 385 to 388: the two end points handed to \<open>cv2.line\<close>, in source order.\<close>

definition segment_endpoints ::
  "qrect \<Rightarrow> ndarray \<Rightarrow> int \<times> int \<Rightarrow> int \<times> int \<Rightarrow> exn + ((int \<times> int) \<times> (int \<times> int))" where
  "segment_endpoints r img prev cur =
     (case r of (x, y, w, h) \<Rightarrow>
        and_then (image_coord img (fst prev) x 1 w) (\<lambda>start_x.
        and_then (image_coord img (snd prev) y 0 h) (\<lambda>start_y.
        and_then (image_coord img (fst cur) x 1 w) (\<lambda>end_x.
        and_then (image_coord img (snd cur) y 0 h) (\<lambda>end_y.
          Inr ((start_x, start_y), (end_x, end_y)))))))"

text \<open>Lines 385 to 391: \<open>cv2.line\<close> changes the array of \<open>processed_image\<close> itself.\<close>

definition draw_segment :: "cv2 \<Rightarrow> qrect \<Rightarrow> int \<times> int \<Rightarrow> int \<times> int \<Rightarrow> proc" where
  "draw_segment cv r prev cur s =
     (case processed_image s of
        None \<Rightarrow> (s, Some (AttributeError ''NoneType object has no attribute shape''))
      | Some p \<Rightarrow>
          (case and_then (segment_endpoints r (deref s p) prev cur)
                  (\<lambda>(a, b). line cv (deref s p) a b drawing_color drawing_thickness) of
             Inl e \<Rightarrow> (s, Some e)
           | Inr img \<Rightarrow> (store p img s, None)))"

definition mouse_press_event :: "int \<times> int \<Rightarrow> proc" where
  "mouse_press_event pos s =
     (if processed_image s \<noteq> None
      then (s\<lparr>is_drawing := True, last_point := Some pos\<rparr>, None)
      else (s, None))"

definition mouse_move_event :: "cv2 \<Rightarrow> int \<times> int \<Rightarrow> proc" where
  "mouse_move_event cv pos s =
     (if is_drawing s \<and> processed_image s \<noteq> None then
        (case last_point s of
           None \<Rightarrow> (s\<lparr>last_point := Some pos\<rparr>, None)
         | Some prev \<Rightarrow>
             (case get_image_rect s of
                None \<Rightarrow> (s, Some (AttributeError ''NoneType object has no attribute contains''))
              | Some r \<Rightarrow>
                  if contains r pos
                  then seq (draw_segment cv r prev pos)
                         (seq (update_image_display cv)
                            (\<lambda>s. (s\<lparr>last_point := Some pos\<rparr>, None))) s
                  else (s\<lparr>last_point := Some pos\<rparr>, None)))
      else (s, None))"

definition mouse_release_event :: proc where
  "mouse_release_event s =
     (let s1 = s\<lparr>is_drawing := False, last_point := None\<rparr>
      in if processed_image s1 \<noteq> None then (add_to_history s1, None) else (s1, None))"

section \<open>Files, camera, sliders, resizing\<close>

text \<open>
  Lines 247 to 252 and 465 to 470: \<open>imread\<close> gives \<open>None\<close> or an array, and the
  result is assigned to \<open>original_image\<close> before it is tested.
\<close>

definition load_image :: "cv2 \<Rightarrow> ndarray option \<Rightarrow> proc" where
  "load_image cv imread s =
     (case imread of
        None \<Rightarrow> (s\<lparr>original_image := None\<rparr>, Some (Exception ''Failed to load image''))
      | Some a \<Rightarrow>
          (let (orig, s1) = alloc a s;
               s2 = s1\<lparr>original_image := Some orig\<rparr>
           in seq (update_image_display cv) (\<lambda>s. (add_to_history s, None))
                (restore_original orig s2)))"

text \<open>\<open>open_image\<close>: the dialog's file name (empty when cancelled) and what \<open>imread\<close> gives.\<close>

definition open_image :: "cv2 \<Rightarrow> string \<Rightarrow> ndarray option \<Rightarrow> proc" where
  "open_image cv file_name imread =
     try_except
       (\<lambda>s. if file_name \<noteq> [] then load_image cv imread s else (s, None))
       (\<lambda>e s. (show_message (Critical ''Error'' (''Failed to open image: '' @ str e)) s, None))"

text \<open>\<open>dropEvent\<close>: the dropped local file names and what \<open>imread\<close> gives for the first.\<close>

definition dropEvent :: "cv2 \<Rightarrow> string list \<Rightarrow> ndarray option \<Rightarrow> proc" where
  "dropEvent cv files imread =
     try_except
       (\<lambda>s. if files \<noteq> [] then load_image cv imread s else (s, None))
       (\<lambda>e s. (show_message (Critical ''Error'' (''Failed to load dropped image: '' @ str e)) s, None))"

text \<open>\<open>save_image\<close>: the file name chosen and what \<open>imwrite\<close> does (raise, or report success).\<close>

definition save_image :: "string \<Rightarrow> exn + bool \<Rightarrow> proc" where
  "save_image file_name imwrite =
     try_except
       (\<lambda>s. if processed_image s \<noteq> None \<and> file_name \<noteq> [] then
               (case imwrite of
                  Inl e \<Rightarrow> (s, Some e)
                | Inr success \<Rightarrow>
                    if \<not> success then (s, Some (Exception ''Failed to save image''))
                    else (show_message (Information ''Success'' ''Image saved successfully!'') s, None))
             else (s, None))
       (\<lambda>e s. (show_message (Critical ''Error'' (''Failed to save image: '' @ str e)) s, None))"

definition stop_live_preview :: proc where
  "stop_live_preview s =
     (let s1 = s\<lparr>is_live_preview := False\<rparr>;
          s2 = (case cap s1 of None \<Rightarrow> s1 | Some _ \<Rightarrow> s1\<lparr>cap := Some False\<rparr>);
          s3 = (case timer s2 of None \<Rightarrow> s2 | Some _ \<Rightarrow> s2\<lparr>timer := Some False\<rparr>)
      in (s3, None))"

text \<open>\<open>start_live_preview\<close>: whether the camera opened.\<close>

definition start_live_preview :: "bool \<Rightarrow> proc" where
  "start_live_preview opened =
     try_except
       (\<lambda>s. let s1 = s\<lparr>is_live_preview := True, cap := Some opened\<rparr>
            in if \<not> opened then (s1, Some (Exception ''Failed to open camera''))
               else (s1\<lparr>timer := Some True\<rparr>, None))
       (\<lambda>e s. stop_live_preview
                 (show_message (Critical ''Error'' (''Failed to start live preview: '' @ str e)) s))"

text \<open>
  \<open>update_live_preview\<close>: what \<open>self.cap.read()\<close> gives; the frame is a new array
  and is assigned without a copy.
\<close>

definition update_live_preview :: "cv2 \<Rightarrow> bool \<Rightarrow> ndarray \<Rightarrow> proc" where
  "update_live_preview cv ret frame s =
     (if is_live_preview s \<and> cap s \<noteq> None then
        (if ret
         then (let (r, s1) = alloc frame s
               in update_image_display cv (s1\<lparr>processed_image := Some r\<rparr>))
         else (s, None))
      else (s, None))"

text \<open>
  Lines 193 to 195 and 217 to 219: a slider keeps its value in its range and its
  \<open>valueChanged\<close> signal runs the filter.
\<close>

definition blur_slider_changed :: "cv2 \<Rightarrow> int \<Rightarrow> proc" where
  "blur_slider_changed cv v s =
     apply_filter cv ''Gaussian Blur'' (s\<lparr>blur_slider := max 1 (min 15 v)\<rparr>)"

definition brightness_slider_changed :: "cv2 \<Rightarrow> int \<Rightarrow> proc" where
  "brightness_slider_changed cv v s =
     apply_filter cv ''Brightness/Contrast'' (s\<lparr>brightness_slider := max (- 100) (min 100 v)\<rparr>)"

text \<open>\<open>resizeEvent\<close>: the label's new size.\<close>

definition resizeEvent :: "cv2 \<Rightarrow> int \<times> int \<Rightarrow> proc" where
  "resizeEvent cv sz s = update_image_display cv (s\<lparr>label_size := sz\<rparr>)"

section \<open>The event loop\<close>

text \<open>
  Everything the user, the timer and the window system can trigger, with what the
  environment supplies (dialog results, file contents, camera frames, positions).
\<close>

datatype event =
    OpenImage string "ndarray option"
  | Drop "string list" "ndarray option"
  | SaveImage string "exn + bool"
  | ApplyFilter string
  | BlurSlider int
  | BrightnessSlider int
  | ResetImage
  | ClearDrawing
  | Undo
  | Redo
  | StartLive bool
  | StopLive
  | TimerTick bool ndarray
  | MousePress "int \<times> int"
  | MouseMove "int \<times> int"
  | MouseRelease
  | Resize "int \<times> int"

fun handle :: "cv2 \<Rightarrow> event \<Rightarrow> proc" where
  "handle cv (OpenImage f i) = open_image cv f i"
| "handle cv (Drop fs i) = dropEvent cv fs i"
| "handle cv (SaveImage f w) = save_image f w"
| "handle cv (ApplyFilter n) = apply_filter cv n"
| "handle cv (BlurSlider v) = blur_slider_changed cv v"
| "handle cv (BrightnessSlider v) = brightness_slider_changed cv v"
| "handle cv ResetImage = reset_image cv"
| "handle cv ClearDrawing = clear_drawing cv"
| "handle cv Undo = undo cv"
| "handle cv Redo = redo cv"
| "handle cv (StartLive b) = start_live_preview b"
| "handle cv StopLive = stop_live_preview"
| "handle cv (TimerTick ret frame) = update_live_preview cv ret frame"
| "handle cv (MousePress pos) = mouse_press_event pos"
| "handle cv (MouseMove pos) = mouse_move_event cv pos"
| "handle cv MouseRelease = mouse_release_event"
| "handle cv (Resize sz) = resizeEvent cv sz"

text \<open>
  The state after a list of events. An exception that no handler catches is
  dropped here and the next event runs on the state it left: when such an
  exception ends the process instead, the states that occur are among these.
\<close>

fun run :: "cv2 \<Rightarrow> event list \<Rightarrow> app \<Rightarrow> app" where
  "run cv [] s = s"
| "run cv (ev # evs) s = run cv evs (fst (handle cv ev s))"

inductive reachable :: "cv2 \<Rightarrow> app \<Rightarrow> bool" for cv :: cv2 where
  reachable_init: "reachable cv init"
| reachable_step: "reachable cv s \<Longrightarrow> reachable cv (fst (handle cv ev s))"

section \<open>Notions used in the properties\<close>

text \<open>The images that the history holds, in order, and the image being edited.\<close>

definition snapshots :: "app \<Rightarrow> ndarray list" where
  "snapshots s = map (deref s) (image_history s)"

definition processed :: "app \<Rightarrow> ndarray option" where
  "processed s = map_option (deref s) (processed_image s)"

definition original :: "app \<Rightarrow> ndarray option" where
  "original s = map_option (deref s) (original_image s)"

text \<open>
  The predicate on the history: a non-empty history has its index among its
  positions, an empty one has index \<open>-1\<close>.
\<close>

definition hist_inv :: "app \<Rightarrow> bool" where
  "hist_inv s =
     (if image_history s = [] then current_history_index s = - 1
      else 0 \<le> current_history_index s
         \<and> current_history_index s \<le> int (length (image_history s)) - 1)"

text \<open>
  Every reference of the state is to an array of the store, and the array being
  edited is neither the original nor an entry of the history.
\<close>

definition heap_ok :: "app \<Rightarrow> bool" where
  "heap_ok s =
     (list_all (\<lambda>r. r < length (heap s)) (image_history s)
      \<and> (case original_image s of None \<Rightarrow> True | Some r \<Rightarrow> r < length (heap s))
      \<and> (case processed_image s of
            None \<Rightarrow> True
          | Some p \<Rightarrow> p < length (heap s) \<and> original_image s \<noteq> Some p
                       \<and> p \<notin> set (image_history s)))"

text \<open>A property that a procedure keeps, whether it raises or not.\<close>

definition preserves :: "(app \<Rightarrow> bool) \<Rightarrow> proc \<Rightarrow> bool" where
  "preserves P p = (\<forall>s. P s \<longrightarrow> P (fst (p s)))"

text \<open>Running a procedure \<open>n\<close> times on the state.\<close>

definition times :: "nat \<Rightarrow> proc \<Rightarrow> app \<Rightarrow> app" where
  "times n p = (\<lambda>s. fst (p s)) ^^ n"

text \<open>
  The history contract's \<open>record(image)\<close>. The program has no function that takes
  the image: each caller makes \<open>processed_image\<close> refer to the image and then calls
  \<open>add_to_history\<close>, which is what this does.
\<close>

definition record_image :: "ndarray \<Rightarrow> app \<Rightarrow> app" where
  "record_image img s = (let (r, s1) = alloc img s in add_to_history (s1\<lparr>processed_image := Some r\<rparr>))"

text \<open>
  A stand-in for the library on which the handlers can be evaluated: every call
  succeeds and gives its image back.
\<close>

definition cv_plain :: cv2 where
  "cv_plain = \<lparr> cvtColor = (\<lambda>img c. Inr img), GaussianBlur = (\<lambda>img k sg. Inr img),
     Canny = (\<lambda>img lo hi. Inr img), filter2D = (\<lambda>img d k. Inr img),
     convertScaleAbs = (\<lambda>img a b. Inr img), line = (\<lambda>img a b col th. Inr img) \<rparr>"

text \<open>
  The invariant of the event loop, optionally with the original image pinned to a
  given array object and contents.
\<close>

definition app_inv :: "(ref \<times> ndarray) option \<Rightarrow> app \<Rightarrow> bool" where
  "app_inv oa s =
     (hist_inv s \<and> heap_ok s
      \<and> (case oa of None \<Rightarrow> True
          | Some (r, a) \<Rightarrow> original_image s = Some r \<and> deref s r = a))"

text \<open>The events that load a file, and so replace the original image.\<close>

fun loads :: "event \<Rightarrow> bool" where
  "loads (OpenImage f i) = True"
| "loads (Drop fs i) = True"
| "loads ev = False"

text \<open>Small images and a state with two snapshots, for evaluating the handlers.\<close>

definition img1 :: ndarray where
  "img1 = \<lparr>shape = [1, 1, 3], data = [10, 20, 30]\<rparr>"

definition img2 :: ndarray where
  "img2 = \<lparr>shape = [1, 1, 3], data = [40, 50, 60]\<rparr>"

definition img3 :: ndarray where
  "img3 = \<lparr>shape = [1, 1, 3], data = [70, 80, 90]\<rparr>"

definition st1 :: app where
  "st1 = init\<lparr>heap := [img1, img2, img1], processed_image := Some 2,
            image_history := [0, 1], current_history_index := 0\<rparr>"

text \<open>
  A state as after opening \<open>img1\<close> and editing: the original, the edited image and
  one snapshot are three array objects.
\<close>

definition st_loaded :: app where
  "st_loaded = init\<lparr>heap := [img1, img2, img1], original_image := Some 0,
                  processed_image := Some 1, image_history := [2],
                  current_history_index := 0, pixmap := True\<rparr>"

text \<open>A stand-in library whose \<open>line\<close> paints every byte of the image.\<close>

definition cv_paint :: cv2 where
  "cv_paint = cv_plain\<lparr>line := (\<lambda>img a b col th. Inr (img\<lparr>data := map (\<lambda>_. 255) (data img)\<rparr>))\<rparr>"

text \<open>The state after opening \<open>img1\<close>, and a filter followed by one stroke.\<close>

definition after_open :: app where
  "after_open = fst (handle cv_paint (OpenImage ''a.png'' (Some img1)) init)"

definition some_edits :: "event list" where
  "some_edits = [ApplyFilter ''Sharpen'', MousePress (5, 5), MouseMove (10, 10), MouseRelease]"

text \<open>Every entry of the history refers to an array of the store.\<close>

definition refs_valid :: "app \<Rightarrow> bool" where
  "refs_valid s = list_all (\<lambda>r. r < length (heap s)) (image_history s)"

text \<open>
  A stand-in library that runs out of memory when a grey image is expanded to three
  channels: \<open>COLOR_BGR2GRAY\<close> gives an image of two axes, \<open>COLOR_GRAY2BGR\<close> raises.
\<close>

definition cv_no_memory :: cv2 where
  "cv_no_memory = cv_plain\<lparr>cvtColor :=
     (\<lambda>img c. if c = COLOR_BGR2GRAY
               then Inr \<lparr>shape = take 2 (shape img),
                         data = take (prod_list (take 2 (shape img))) (data img)\<rparr>
               else if c = COLOR_GRAY2BGR then Inl (cv2_error ''Insufficient memory'')
               else Inr img)\<rparr>"

text \<open>
  The coordinate mapping that the design asks for. The pixmap shown in the label
  is the image scaled by one factor in both directions to the largest size that
  fits the label, and centred in it: \<open>spec_pixmap_rect\<close> is the rectangle it covers,
  for a label of size \<open>(lw, lh)\<close> and an image of width \<open>iw\<close> and height \<open>ih\<close>. A
  point of the label maps to the image through that rectangle, with the conversion
  of lines 385 to 388.
\<close>

definition spec_pixmap_rect :: "int \<times> int \<Rightarrow> int \<times> int \<Rightarrow> qrect" where
  "spec_pixmap_rect sz isz =
     (case (sz, isz) of ((lw, lh), (iw, ih)) \<Rightarrow>
        if iw * lh \<le> ih * lw
        then ((lw - iw * lh div ih) div 2, 0, iw * lh div ih, lh)
        else (0, (lh - ih * lw div iw) div 2, lw, ih * lw div iw))"

definition spec_segment_endpoints ::
  "int \<times> int \<Rightarrow> ndarray \<Rightarrow> int \<times> int \<Rightarrow> int \<times> int \<Rightarrow> exn + ((int \<times> int) \<times> (int \<times> int))" where
  "spec_segment_endpoints sz img prev cur =
     and_then (shape_at img 1) (\<lambda>iw.
     and_then (shape_at img 0) (\<lambda>ih.
       segment_endpoints (spec_pixmap_rect sz (iw, ih)) img prev cur))"

text \<open>
  A square image of 100 by 100 pixels, and the state after opening it in the
  label of 1200 by 900 and pressing the mouse button at \<open>(150, 0)\<close>, the top left
  corner of the pixmap shown.
\<close>

definition img_square :: ndarray where
  "img_square = \<lparr>shape = [100, 100, 3], data = replicate 30000 0\<rparr>"

definition st_stroke :: app where
  "st_stroke = init\<lparr>heap := [img_square, img_square, img_square], original_image := Some 0,
      processed_image := Some 1, image_history := [2], current_history_index := 0,
      is_drawing := True, last_point := Some (150, 0), pixmap := True\<rparr>"

text \<open>
  A stand-in library whose \<open>GaussianBlur\<close> rejects a kernel size that is not
  positive and odd, as the library does, and otherwise writes the kernel width
  into every byte of the image.
\<close>

definition cv_blur :: cv2 where
  "cv_blur = cv_plain\<lparr>GaussianBlur :=
     (\<lambda>img k sg. if 0 < fst k \<and> odd (fst k) \<and> 0 < snd k \<and> odd (snd k)
                then Inr (img\<lparr>data := map (\<lambda>_. word_of_int (fst k)) (data img)\<rparr>)
                else Inl (cv2_error ''ksize.width > 0 && ksize.width % 2 == 1''))\<rparr>"

section \<open>Basic facts\<close>


lemma py_slice_to_nonneg: "0 \<le> k \<Longrightarrow> py_slice_to xs k = take (nat k) xs"
  by (simp add: py_slice_to_def)

lemma length_py_slice_to: "length (py_slice_to xs k) \<le> length xs"
  by (auto simp: py_slice_to_def)

lemma set_py_slice_to: "set (py_slice_to xs k) \<subseteq> set xs"
  by (auto simp: py_slice_to_def dest: in_set_takeD)

lemma py_getitem_nth: "0 \<le> i \<Longrightarrow> i < int (length xs) \<Longrightarrow> py_getitem xs i = Inr (xs ! nat i)"
  by (simp add: py_getitem_def Let_def)

lemma py_getitem_in_set: "py_getitem xs i = Inr x \<Longrightarrow> x \<in> set xs"
  by (auto simp: py_getitem_def Let_def split: if_splits)

subsection \<open>Sequencing\<close>

lemma preservesI: "(\<And>s. P s \<Longrightarrow> P (fst (p s))) \<Longrightarrow> preserves P p"
  by (simp add: preserves_def)

lemma preservesD: "preserves P p \<Longrightarrow> P s \<Longrightarrow> P (fst (p s))"
  by (simp add: preserves_def)

lemma preserves_seq: "preserves P p \<Longrightarrow> preserves P q \<Longrightarrow> preserves P (seq p q)"
  by (auto simp: preserves_def seq_def split: prod.splits option.splits)

lemma preserves_try_except:
  "preserves P p \<Longrightarrow> (\<And>e. preserves P (h e)) \<Longrightarrow> preserves P (try_except p h)"
  by (auto simp: preserves_def try_except_def split: prod.splits option.splits)

lemma preserves_pure: "(\<And>s. P s \<Longrightarrow> P (f s)) \<Longrightarrow> preserves P (\<lambda>s. (f s, None))"
  by (simp add: preserves_def)

lemma preserves_skip: "preserves P (\<lambda>s. (s, None))"
  by (simp add: preserves_def)

subsection \<open>Primitive effects\<close>

lemma update_image_display_result:
  "fst (update_image_display cv s) = s \<or> fst (update_image_display cv s) = s\<lparr>pixmap := True\<rparr>"
  by (simp add: update_image_display_def split: option.splits sum.splits)

lemma update_image_display_cases:
  "\<exists>b. fst (update_image_display cv s) = s\<lparr>pixmap := b\<rparr>"
proof -
  have "s = s\<lparr>pixmap := pixmap s\<rparr>" by simp
  with update_image_display_result [of cv s] show ?thesis by metis
qed

lemma add_to_history_None: "processed_image s = None \<Longrightarrow> add_to_history s = s"
  by (simp add: add_to_history_def)

lemma add_to_history_Some:
  "processed_image s = Some p \<Longrightarrow>
   add_to_history s =
     s\<lparr>heap := heap s @ [deref s p],
       image_history := py_slice_to (image_history s) (current_history_index s + 1) @ [length (heap s)],
       current_history_index := int (length (py_slice_to (image_history s) (current_history_index s + 1)))\<rparr>"
  by (simp add: add_to_history_def copy_def alloc_def deref_def Let_def)

lemma assign_processed_cases:
  "fst (assign_processed f s) = s \<or>
   (\<exists>a. fst (assign_processed f s) = s\<lparr>heap := heap s @ [a], processed_image := Some (length (heap s))\<rparr>)"
  by (auto simp: assign_processed_def alloc_def split: option.splits sum.splits)

lemma restore_original_eq:
  "restore_original r s = s\<lparr>heap := heap s @ [deref s r], processed_image := Some (length (heap s))\<rparr>"
  by (simp add: restore_original_def copy_def alloc_def)

lemma load_current_cases:
  "fst (load_current cv s) = s \<or>
   (\<exists>r b. py_getitem (image_history s) (current_history_index s) = Inr r \<and>
      fst (load_current cv s) =
        s\<lparr>heap := heap s @ [deref s r], processed_image := Some (length (heap s)), pixmap := b\<rparr>)"
proof (cases "py_getitem (image_history s) (current_history_index s)")
  case (Inl e)
  then show ?thesis by (simp add: load_current_def)
next
  case (Inr r)
  let ?s1 = "s\<lparr>heap := heap s @ [deref s r], processed_image := Some (length (heap s))\<rparr>"
  have eq: "load_current cv s = update_image_display cv ?s1"
    using Inr by (simp add: load_current_def copy_def alloc_def)
  from update_image_display_cases [of cv ?s1]
  obtain b where "fst (load_current cv s) = ?s1\<lparr>pixmap := b\<rparr>"
    by (auto simp: eq)
  then show ?thesis using Inr by auto
qed

subsection \<open>hist_inv\<close>

lemma hist_inv_cong:
  "image_history s' = image_history s \<Longrightarrow> current_history_index s' = current_history_index s \<Longrightarrow>
   hist_inv s' = hist_inv s"
  by (simp add: hist_inv_def)

lemma hist_inv_init: "hist_inv init"
  by (simp add: hist_inv_def init_def)

lemma hist_inv_add_to_history: "hist_inv s \<Longrightarrow> hist_inv (add_to_history s)"
  by (cases "processed_image s") (simp_all add: add_to_history_None add_to_history_Some hist_inv_def)

lemma hist_inv_update_image_display: "hist_inv (fst (update_image_display cv s)) = hist_inv s"
  using update_image_display_cases [of cv s] by (auto simp: hist_inv_def)

lemma hist_inv_load_current: "hist_inv (fst (load_current cv s)) = hist_inv s"
  using load_current_cases [of cv s] by (auto simp: hist_inv_def)

lemma hist_inv_undo: "hist_inv s \<Longrightarrow> hist_inv (fst (undo cv s))"
  by (auto simp: undo_def hist_inv_load_current) (auto simp: hist_inv_def split: if_splits)

lemma hist_inv_redo: "hist_inv s \<Longrightarrow> hist_inv (fst (redo cv s))"
  by (auto simp: redo_def hist_inv_load_current) (auto simp: hist_inv_def split: if_splits)


subsection \<open>The invariant under the primitive steps\<close>

lemma app_inv_cong:
  "heap s' = heap s \<Longrightarrow> original_image s' = original_image s \<Longrightarrow>
   processed_image s' = processed_image s \<Longrightarrow> image_history s' = image_history s \<Longrightarrow>
   current_history_index s' = current_history_index s \<Longrightarrow> app_inv oa s' = app_inv oa s"
  by (simp add: app_inv_def hist_inv_def heap_ok_def deref_def
           cong: option.case_cong prod.case_cong)

lemma app_inv_pixmap [simp]: "app_inv oa (s\<lparr>pixmap := b\<rparr>) = app_inv oa s"
  by (rule app_inv_cong) simp_all

lemma app_inv_messages [simp]: "app_inv oa (s\<lparr>messages := m\<rparr>) = app_inv oa s"
  by (rule app_inv_cong) simp_all

lemma app_inv_is_drawing [simp]: "app_inv oa (s\<lparr>is_drawing := b\<rparr>) = app_inv oa s"
  by (rule app_inv_cong) simp_all

lemma app_inv_last_point [simp]: "app_inv oa (s\<lparr>last_point := pt\<rparr>) = app_inv oa s"
  by (rule app_inv_cong) simp_all

lemma app_inv_blur_slider [simp]: "app_inv oa (s\<lparr>blur_slider := v\<rparr>) = app_inv oa s"
  by (rule app_inv_cong) simp_all

lemma app_inv_brightness_slider [simp]: "app_inv oa (s\<lparr>brightness_slider := v\<rparr>) = app_inv oa s"
  by (rule app_inv_cong) simp_all

lemma app_inv_label_size [simp]: "app_inv oa (s\<lparr>label_size := sz\<rparr>) = app_inv oa s"
  by (rule app_inv_cong) simp_all

lemma app_inv_is_live_preview [simp]: "app_inv oa (s\<lparr>is_live_preview := b\<rparr>) = app_inv oa s"
  by (rule app_inv_cong) simp_all

lemma app_inv_cap [simp]: "app_inv oa (s\<lparr>cap := c\<rparr>) = app_inv oa s"
  by (rule app_inv_cong) simp_all

lemma app_inv_timer [simp]: "app_inv oa (s\<lparr>timer := t\<rparr>) = app_inv oa s"
  by (rule app_inv_cong) simp_all

lemma app_inv_show_message [simp]: "app_inv oa (show_message m s) = app_inv oa s"
  by (simp add: show_message_def)

text \<open>A new array for \<open>processed_image\<close>: the step of every filter, undo, redo, reset and frame.\<close>

lemma app_inv_new_processed:
  "app_inv oa s \<Longrightarrow>
   app_inv oa (s\<lparr>heap := heap s @ [a], processed_image := Some (length (heap s))\<rparr>)"
  by (auto simp: app_inv_def hist_inv_def heap_ok_def deref_def nth_append list_all_iff
           split: option.splits)

text \<open>Drawing into the array of \<open>processed_image\<close>.\<close>

lemma app_inv_store:
  "app_inv oa s \<Longrightarrow> processed_image s = Some p \<Longrightarrow> app_inv oa (store p a s)"
  by (auto simp: app_inv_def hist_inv_def heap_ok_def deref_def store_def list_all_iff
           split: option.splits)

lemma app_inv_update_image_display:
  "app_inv oa (fst (update_image_display cv s)) = app_inv oa s"
proof -
  obtain b where "fst (update_image_display cv s) = s\<lparr>pixmap := b\<rparr>"
    using update_image_display_cases by blast
  then show ?thesis by simp
qed

lemma in_py_slice_to: "x \<in> set (py_slice_to xs k) \<Longrightarrow> x \<in> set xs"
  using set_py_slice_to [of xs k] by blast

lemma heap_ok_add_to_history: "heap_ok s \<Longrightarrow> heap_ok (add_to_history s)"
proof (cases "processed_image s")
  case None
  then show "heap_ok s \<Longrightarrow> heap_ok (add_to_history s)" by (simp add: add_to_history_None)
next
  case (Some p)
  assume ok: "heap_ok s"
  show "heap_ok (add_to_history s)"
    using ok Some
    by (auto simp: add_to_history_Some heap_ok_def list_all_iff less_Suc_eq
             split: option.splits dest: in_py_slice_to)
qed

lemma deref_add_to_history:
  "r < length (heap s) \<Longrightarrow> deref (add_to_history s) r = deref s r"
  by (cases "processed_image s")
     (simp_all add: add_to_history_None add_to_history_Some deref_def nth_append)

lemma original_image_add_to_history [simp]:
  "original_image (add_to_history s) = original_image s"
  by (cases "processed_image s") (simp_all add: add_to_history_None add_to_history_Some)

lemma processed_image_add_to_history [simp]:
  "processed_image (add_to_history s) = processed_image s"
  by (cases "processed_image s") (simp_all add: add_to_history_None add_to_history_Some)

lemma original_valid: "heap_ok s \<Longrightarrow> original_image s = Some r \<Longrightarrow> r < length (heap s)"
  by (simp add: heap_ok_def)

lemma app_inv_add_to_history:
  assumes "app_inv oa s"
  shows "app_inv oa (add_to_history s)"
proof -
  from assms have h: "hist_inv s" and k: "heap_ok s"
    by (simp_all add: app_inv_def)
  have pinned: "original_image (add_to_history s) = Some r \<and> deref (add_to_history s) r = a"
    if "oa = Some (r, a)" for r a
  proof -
    from that assms have o: "original_image s = Some r" and d: "deref s r = a"
      by (simp_all add: app_inv_def)
    from k o have "r < length (heap s)" by (rule original_valid)
    with o d show ?thesis by (simp add: deref_add_to_history)
  qed
  show ?thesis
    unfolding app_inv_def
    using hist_inv_add_to_history [OF h] heap_ok_add_to_history [OF k] pinned
    by (auto split: option.splits)
qed

lemma app_inv_assign_processed: "app_inv oa s \<Longrightarrow> app_inv oa (fst (assign_processed f s))"
  using assign_processed_cases [of f s] by (auto simp: app_inv_new_processed)

lemma app_inv_restore_original:
  "app_inv oa s \<Longrightarrow> app_inv oa (restore_original r s)"
  by (simp add: restore_original_eq app_inv_new_processed)

lemma app_inv_load_current: "app_inv oa s \<Longrightarrow> app_inv oa (fst (load_current cv s))"
  using load_current_cases [of cv s] by (auto simp: app_inv_new_processed)

lemma app_inv_index:
  "app_inv oa s \<Longrightarrow> hist_inv (s\<lparr>current_history_index := i\<rparr>) \<Longrightarrow>
   app_inv oa (s\<lparr>current_history_index := i\<rparr>)"
  by (simp add: app_inv_def heap_ok_def deref_def cong: option.case_cong)

lemma app_inv_undo: "app_inv oa s \<Longrightarrow> app_inv oa (fst (undo cv s))"
proof (cases "current_history_index s > 0")
  case True
  assume inv: "app_inv oa s"
  then have "hist_inv (s\<lparr>current_history_index := current_history_index s - 1\<rparr>)"
    using True by (auto simp: app_inv_def hist_inv_def split: if_splits)
  with inv show ?thesis
    using True by (simp add: undo_def app_inv_load_current app_inv_index)
next
  case False
  then show "app_inv oa s \<Longrightarrow> app_inv oa (fst (undo cv s))" by (simp add: undo_def)
qed

lemma app_inv_redo: "app_inv oa s \<Longrightarrow> app_inv oa (fst (redo cv s))"
proof (cases "current_history_index s < int (length (image_history s)) - 1")
  case True
  assume inv: "app_inv oa s"
  then have "hist_inv (s\<lparr>current_history_index := current_history_index s + 1\<rparr>)"
    using True by (auto simp: app_inv_def hist_inv_def split: if_splits)
  with inv show ?thesis
    using True by (simp add: redo_def app_inv_load_current app_inv_index)
next
  case False
  then show "app_inv oa s \<Longrightarrow> app_inv oa (fst (redo cv s))" by (simp add: redo_def)
qed

subsection \<open>The invariant under the handlers\<close>

lemma preserves_assign_processed: "preserves (app_inv oa) (assign_processed f)"
  by (simp add: preserves_def app_inv_assign_processed)

lemma preserves_update_image_display: "preserves (app_inv oa) (update_image_display cv)"
  by (simp add: preserves_def app_inv_update_image_display)

lemma preserves_display_and_record:
  "preserves (app_inv oa) (seq (update_image_display cv) (\<lambda>s. (add_to_history s, None)))"
  by (intro preserves_seq preserves_update_image_display preserves_pure app_inv_add_to_history)

lemma preserves_filter_body: "preserves (app_inv oa) (filter_body cv n)"
proof (rule preservesI)
  fix s assume inv: "app_inv oa s"
  have 1: "app_inv oa (fst (assign_processed f s))" for f
    using inv by (rule app_inv_assign_processed)
  have 2: "app_inv oa (fst (seq (assign_processed f) (assign_processed g) s))" for f g
    using preserves_seq [OF preserves_assign_processed preserves_assign_processed] inv
    by (rule preservesD)
  show "app_inv oa (fst (filter_body cv n s))"
    unfolding filter_body_def using 1 2 inv by simp
qed

lemma preserves_apply_filter: "preserves (app_inv oa) (apply_filter cv n)"
proof (rule preservesI)
  fix s assume inv: "app_inv oa s"
  have "preserves (app_inv oa)
          (try_except (seq (filter_body cv n)
               (seq (update_image_display cv) (\<lambda>s. (add_to_history s, None))))
             (\<lambda>e s. (show_message (Critical ''Error'' (''Failed to apply filter: '' @ str e)) s, None)))"
    by (intro preserves_try_except preserves_seq preserves_filter_body
          preserves_display_and_record preserves_pure) simp
  from preservesD [OF this inv] inv
  show "app_inv oa (fst (apply_filter cv n s))"
    by (simp add: apply_filter_def)
qed

lemma preserves_reset_image: "preserves (app_inv oa) (reset_image cv)"
proof (rule preservesI)
  fix s assume inv: "app_inv oa s"
  show "app_inv oa (fst (reset_image cv s))"
  proof (cases "original_image s")
    case None
    with inv show ?thesis by (simp add: reset_image_def)
  next
    case (Some r)
    have "app_inv oa (restore_original r s)" using inv by (rule app_inv_restore_original)
    from preservesD [OF preserves_display_and_record this] Some
    show ?thesis by (simp add: reset_image_def)
  qed
qed

lemma preserves_clear_drawing: "preserves (app_inv oa) (clear_drawing cv)"
proof (rule preservesI)
  fix s assume inv: "app_inv oa s"
  show "app_inv oa (fst (clear_drawing cv s))"
  proof (cases "original_image s")
    case None
    with inv show ?thesis by (simp add: clear_drawing_def)
  next
    case (Some r)
    have "app_inv oa (restore_original r s)" using inv by (rule app_inv_restore_original)
    from preservesD [OF preserves_display_and_record this] Some
    show ?thesis by (simp add: clear_drawing_def)
  qed
qed

lemma preserves_stop_live_preview: "preserves (app_inv oa) stop_live_preview"
  by (rule preservesI) (simp add: stop_live_preview_def Let_def split: option.splits)

lemma preserves_start_live_preview: "preserves (app_inv oa) (start_live_preview b)"
  unfolding start_live_preview_def
  by (intro preserves_try_except preservesI)
     (simp_all add: Let_def preservesD [OF preserves_stop_live_preview])

lemma preserves_update_live_preview: "preserves (app_inv oa) (update_live_preview cv ret frame)"
  by (rule preservesI)
     (simp add: update_live_preview_def alloc_def app_inv_update_image_display app_inv_new_processed)

lemma preserves_save_image: "preserves (app_inv oa) (save_image f w)"
  unfolding save_image_def
  by (intro preserves_try_except preservesI) (simp_all split: sum.splits)

lemma preserves_resizeEvent: "preserves (app_inv oa) (resizeEvent cv sz)"
  by (rule preservesI) (simp add: resizeEvent_def app_inv_update_image_display)

lemma preserves_mouse_press_event: "preserves (app_inv oa) (mouse_press_event pos)"
  by (rule preservesI) (simp add: mouse_press_event_def)

lemma preserves_mouse_release_event: "preserves (app_inv oa) mouse_release_event"
  by (rule preservesI) (simp add: mouse_release_event_def Let_def app_inv_add_to_history)

lemma preserves_draw_segment: "preserves (app_inv oa) (draw_segment cv r prev cur)"
  by (rule preservesI)
     (simp add: draw_segment_def app_inv_store split: option.splits sum.splits)

lemma preserves_mouse_move_event: "preserves (app_inv oa) (mouse_move_event cv pos)"
proof (rule preservesI)
  fix s assume inv: "app_inv oa s"
  have "preserves (app_inv oa)
          (seq (draw_segment cv r prev pos)
             (seq (update_image_display cv) (\<lambda>s. (s\<lparr>last_point := Some pos\<rparr>, None))))" for r prev
    by (intro preserves_seq preserves_draw_segment preserves_update_image_display preserves_pure)
       simp
  from preservesD [OF this inv] inv
  show "app_inv oa (fst (mouse_move_event cv pos s))"
    by (simp add: mouse_move_event_def split: option.splits)
qed

lemma preserves_sliders:
  "preserves (app_inv oa) (blur_slider_changed cv v)"
  "preserves (app_inv oa) (brightness_slider_changed cv v)"
  by (rule preservesI,
      simp add: blur_slider_changed_def brightness_slider_changed_def
        preservesD [OF preserves_apply_filter])+

lemma preserves_undo_redo:
  "preserves (app_inv oa) (undo cv)" "preserves (app_inv oa) (redo cv)"
  by (simp_all add: preserves_def app_inv_undo app_inv_redo)

lemma preserves_load_image: "preserves (app_inv None) (load_image cv i)"
proof (rule preservesI)
  fix s assume inv: "app_inv None s"
  show "app_inv None (fst (load_image cv i s))"
  proof (cases i)
    case None
    from inv have "app_inv None (s\<lparr>original_image := None\<rparr>)"
      by (auto simp: app_inv_def hist_inv_def heap_ok_def split: option.splits)
    with None show ?thesis by (simp add: load_image_def)
  next
    case (Some a)
    let ?s2 = "s\<lparr>heap := heap s @ [a], original_image := Some (length (heap s))\<rparr>"
    from inv have "app_inv None ?s2"
      by (auto simp: app_inv_def hist_inv_def heap_ok_def list_all_iff split: option.splits)
    then have "app_inv None (restore_original (length (heap s)) ?s2)"
      by (rule app_inv_restore_original)
    from preservesD [OF preserves_display_and_record this] Some
    show ?thesis by (simp add: load_image_def alloc_def)
  qed
qed

lemma preserves_guarded_load:
  "preserves (app_inv None) (\<lambda>s. if c then load_image cv i s else (s, None))"
  using preserves_load_image [of cv i] by (simp add: preserves_def)

lemma preserves_open_image: "preserves (app_inv None) (open_image cv f i)"
  unfolding open_image_def
  by (intro preserves_try_except preserves_guarded_load preserves_pure) simp

lemma preserves_dropEvent: "preserves (app_inv None) (dropEvent cv fs i)"
  unfolding dropEvent_def
  by (intro preserves_try_except preserves_guarded_load preserves_pure) simp

lemma preserves_handle:
  "oa = None \<or> \<not> loads ev \<Longrightarrow> preserves (app_inv oa) (handle cv ev)"
  by (cases ev)
     (auto simp: preserves_open_image preserves_dropEvent preserves_save_image preserves_apply_filter
        preserves_sliders preserves_reset_image preserves_clear_drawing preserves_undo_redo
        preserves_start_live_preview preserves_stop_live_preview preserves_update_live_preview
        preserves_mouse_press_event preserves_mouse_move_event preserves_mouse_release_event
        preserves_resizeEvent)

lemma app_inv_init: "app_inv None init"
  by (simp add: app_inv_def hist_inv_def heap_ok_def init_def)

lemma reachable_app_inv: "reachable cv s \<Longrightarrow> app_inv None s"
proof (induction rule: reachable.induct)
  case reachable_init
  show ?case by (rule app_inv_init)
next
  case (reachable_step s ev)
  then show ?case using preserves_handle [of None ev cv] by (simp add: preserves_def)
qed

lemma app_inv_run:
  "app_inv oa s \<Longrightarrow> oa = None \<or> list_all (\<lambda>ev. \<not> loads ev) evs \<Longrightarrow> app_inv oa (run cv evs s)"
proof (induction evs arbitrary: s)
  case Nil
  then show ?case by simp
next
  case (Cons ev evs)
  from Cons.prems have "oa = None \<or> \<not> loads ev" by auto
  then have "app_inv oa (fst (handle cv ev s))"
    using Cons.prems(1) preserves_handle preservesD by blast
  moreover from Cons.prems have "oa = None \<or> list_all (\<lambda>ev. \<not> loads ev) evs" by auto
  ultimately show ?case using Cons.IH by simp
qed

section \<open>Recording an image\<close>
lemma redo_at_end:
  "current_history_index s = int (length (image_history s)) - 1 \<Longrightarrow> redo cv s = (s, None)"
  by (simp add: redo_def)

lemma snapshots_add_to_history:
  assumes p: "processed_image s = Some p" and ok: "heap_ok s"
  shows "snapshots (add_to_history s) =
           py_slice_to (snapshots s) (current_history_index s + 1) @ [deref s p]"
proof -
  have valid: "\<forall>r \<in> set (py_slice_to (image_history s) (current_history_index s + 1)). r < length (heap s)"
    using ok by (auto simp: heap_ok_def list_all_iff dest: in_py_slice_to)
  have "map (\<lambda>r. (heap s @ [heap s ! p]) ! r) (py_slice_to (image_history s) (current_history_index s + 1))
        = map (\<lambda>r. heap s ! r) (py_slice_to (image_history s) (current_history_index s + 1))"
    using valid by (simp add: nth_append)
  moreover have "map (\<lambda>r. heap s ! r) (py_slice_to (image_history s) k)
        = py_slice_to (map (\<lambda>r. heap s ! r) (image_history s)) k" for k
    by (simp add: py_slice_to_def take_map)
  ultimately show ?thesis
    using p by (simp add: snapshots_def add_to_history_Some deref_def [abs_def])
qed

text \<open>
  C1. Recording the image being edited, in a state whose references are valid and
  whose index is at least \<open>-1\<close>: the history keeps exactly the entries up to the
  current index and gains one entry, a new array object with the contents of the
  image; the index is the last position, the entry there is the recorded image,
  \<open>redo\<close> does nothing, and the image being edited is as before.
\<close>

theorem add_to_history_records:
  assumes p: "processed_image s = Some p"
      and ok: "heap_ok s"
      and idx: "- 1 \<le> current_history_index s"
  shows "snapshots (add_to_history s) =
           take (nat (current_history_index s + 1)) (snapshots s) @ [deref s p]
       \<and> image_history (add_to_history s) =
           take (nat (current_history_index s + 1)) (image_history s) @ [length (heap s)]
       \<and> length (heap s) \<notin> set (image_history s) \<and> length (heap s) \<noteq> p
       \<and> current_history_index (add_to_history s) = int (length (image_history (add_to_history s))) - 1
       \<and> py_getitem (snapshots (add_to_history s)) (current_history_index (add_to_history s))
           = Inr (deref s p)
       \<and> redo cv (add_to_history s) = (add_to_history s, None)
       \<and> processed (add_to_history s) = processed s"
proof -
  let ?s' = "add_to_history s"
  let ?k = "nat (current_history_index s + 1)"
  have sl: "py_slice_to xs (current_history_index s + 1) = take ?k xs" for xs :: "'a list"
    using idx by (simp add: py_slice_to_nonneg)
  have snaps: "snapshots ?s' = take ?k (snapshots s) @ [deref s p]"
    using snapshots_add_to_history [OF p ok] by (simp add: sl)
  have hist: "image_history ?s' = take ?k (image_history s) @ [length (heap s)]"
    using p by (simp add: add_to_history_Some sl)
  have fresh: "length (heap s) \<notin> set (image_history s)" "length (heap s) \<noteq> p"
    using ok p by (auto simp: heap_ok_def list_all_iff)
  have index: "current_history_index ?s' = int (length (image_history ?s')) - 1"
    using p by (simp add: add_to_history_Some)
  have len: "length (snapshots ?s') = length (image_history ?s')"
    by (simp add: snapshots_def)
  have cur: "py_getitem (snapshots ?s') (current_history_index ?s') = Inr (deref s p)"
    unfolding index len [symmetric] snaps by (simp add: py_getitem_def Let_def nth_append)
  have nored: "redo cv ?s' = (?s', None)"
    using index by (rule redo_at_end)
  have "p < length (heap s)" using ok p by (simp add: heap_ok_def)
  then have proc: "processed ?s' = processed s"
    using p by (simp add: processed_def deref_add_to_history)
  from snaps hist fresh index cur nored proc show ?thesis by simp
qed

theorem add_to_history_records_witness:
  "processed_image st1 = Some 2 \<and> heap_ok st1 \<and> - 1 \<le> current_history_index st1
   \<and> snapshots (add_to_history st1) = [img1, img1]
   \<and> image_history (add_to_history st1) = [0, 3]
   \<and> current_history_index (add_to_history st1) = 1
   \<and> redo cv_plain (add_to_history st1) = (add_to_history st1, None)"
proof -
  have a: "processed_image st1 = Some 2" by (simp add: st1_def init_def)
  have b: "heap_ok st1" by (simp add: st1_def init_def heap_ok_def)
  have c: "- 1 \<le> current_history_index st1" by (simp add: st1_def init_def)
  have d: "snapshots st1 = [img1, img2]" "image_history st1 = [0, 1]" "deref st1 2 = img1"
    "current_history_index st1 = 0" "length (heap st1) = 3"
    by (simp_all add: st1_def init_def snapshots_def deref_def)
  from add_to_history_records [OF a b c, of cv_plain] a b c show ?thesis
    by (simp add: d)
qed

section \<open>The history invariant\<close>

text \<open>
  C3. The predicate on the history (a non-empty history has its index among its
  positions, an empty one has index \<open>-1\<close>) holds after \<open>__init__\<close>, is kept by
  \<open>add_to_history\<close>, \<open>undo\<close> and \<open>redo\<close>, and holds in every state that the event
  loop reaches.
\<close>

theorem hist_inv_holds:
  "hist_inv init
   \<and> (hist_inv s \<longrightarrow>
        hist_inv (add_to_history s) \<and> hist_inv (fst (undo cv s)) \<and> hist_inv (fst (redo cv s)))
   \<and> (reachable cv t \<longrightarrow> hist_inv t)"
proof -
  have "hist_inv t" if "reachable cv t"
    using reachable_app_inv [OF that] by (simp add: app_inv_def)
  then show ?thesis
    by (simp add: hist_inv_init hist_inv_add_to_history hist_inv_undo hist_inv_redo)
qed

theorem hist_inv_holds_witness:
  "hist_inv st1 \<and> hist_inv (add_to_history st1)
   \<and> hist_inv (fst (undo cv_plain st1)) \<and> hist_inv (fst (redo cv_plain st1))
   \<and> reachable cv_plain (fst (handle cv_plain (OpenImage ''a.png'' (Some img1)) init))
   \<and> hist_inv (fst (handle cv_plain (OpenImage ''a.png'' (Some img1)) init))"
proof -
  have a: "hist_inv st1" by (simp add: st1_def init_def hist_inv_def)
  have b: "reachable cv_plain (fst (handle cv_plain (OpenImage ''a.png'' (Some img1)) init))"
    by (rule reachable_step [OF reachable_init])
  from hist_inv_holds [of st1 cv_plain "fst (handle cv_plain (OpenImage ''a.png'' (Some img1)) init)"]
    a b show ?thesis by simp
qed

section \<open>Filters without an image\<close>

text \<open>
  C9. With no image loaded, \<open>apply_filter\<close> with any filter name shows the warning
  and returns: the state is the one before with the warning added to the messages,
  so the processed image stays \<open>None\<close> and the original image, the store, the
  history and the index are as before.
\<close>

theorem apply_filter_no_image:
  assumes "processed_image s = None"
  shows "apply_filter cv filter_name s =
           (s\<lparr>messages := messages s @ [Warning ''Warning'' ''Please open an image first!'']\<rparr>, None)
       \<and> processed_image (fst (apply_filter cv filter_name s)) = None
       \<and> original_image (fst (apply_filter cv filter_name s)) = original_image s
       \<and> heap (fst (apply_filter cv filter_name s)) = heap s
       \<and> image_history (fst (apply_filter cv filter_name s)) = image_history s
       \<and> current_history_index (fst (apply_filter cv filter_name s)) = current_history_index s"
  using assms by (simp add: apply_filter_def show_message_def)

theorem apply_filter_no_image_witness:
  "processed_image init = None
   \<and> apply_filter cv_plain ''Sharpen'' init =
       (init\<lparr>messages := [Warning ''Warning'' ''Please open an image first!'']\<rparr>, None)"
  using apply_filter_no_image [of init cv_plain "''Sharpen''"]
  by (simp add: init_def)

section \<open>Reset and clear\<close>

lemma update_image_display_Some:
  "processed_image s = Some p \<Longrightarrow>
   (\<exists>e. update_image_display cv s = (s, Some e))
   \<or> update_image_display cv s = (s\<lparr>pixmap := True\<rparr>, None)"
  by (simp add: update_image_display_def split: sum.splits)

lemma display_and_record_cases:
  assumes "processed_image t = Some p"
  shows "(\<exists>e. seq (update_image_display cv) (\<lambda>s. (add_to_history s, None)) t = (t, Some e))
       \<or> seq (update_image_display cv) (\<lambda>s. (add_to_history s, None)) t
           = (add_to_history (t\<lparr>pixmap := True\<rparr>), None)"
  using update_image_display_Some [OF assms, of cv] by (auto simp: seq_def)

lemma processed_add_to_history:
  "heap_ok s \<Longrightarrow> processed (add_to_history s) = processed s"
  by (cases "processed_image s")
     (simp_all add: processed_def deref_add_to_history heap_ok_def)

lemma original_add_to_history:
  "heap_ok s \<Longrightarrow> original (add_to_history s) = original s"
  by (cases "original_image s")
     (simp_all add: original_def deref_add_to_history heap_ok_def)

lemma heap_ok_pixmap [simp]: "heap_ok (s\<lparr>pixmap := b\<rparr>) = heap_ok s"
  by (simp add: heap_ok_def cong: option.case_cong)

lemma processed_pixmap [simp]: "processed (s\<lparr>pixmap := b\<rparr>) = processed s"
  by (simp add: processed_def deref_def [abs_def])

lemma original_pixmap [simp]: "original (s\<lparr>pixmap := b\<rparr>) = original s"
  by (simp add: original_def deref_def [abs_def])

lemma snapshots_pixmap [simp]: "snapshots (s\<lparr>pixmap := b\<rparr>) = snapshots s"
  by (simp add: snapshots_def deref_def [abs_def])

lemma heap_ok_restore_original:
  "heap_ok s \<Longrightarrow> heap_ok (restore_original r s)"
  by (auto simp: restore_original_eq heap_ok_def list_all_iff split: option.splits)

lemma restore_original_contents:
  assumes "original_image s = Some r" and "heap_ok s"
  shows "processed (restore_original r s) = original s"
    and "original (restore_original r s) = original s"
    and "snapshots (restore_original r s) = snapshots s"
    and "processed_image (restore_original r s) = Some (length (heap s))"
  using assms
  by (auto simp: restore_original_eq processed_def original_def snapshots_def deref_def
        heap_ok_def nth_append list_all_iff)

text \<open>What both handlers do when an original image is loaded.\<close>

lemma restore_display_record:
  fixes cv :: cv2
  assumes o: "original_image s = Some r" and ok: "heap_ok s"
  defines "res \<equiv> seq (update_image_display cv) (\<lambda>s. (add_to_history s, None)) (restore_original r s)"
  shows "processed (fst res) = original s"
    and "original (fst res) = original s"
    and "processed_image (fst res) = Some (length (heap s))"
    and "snd res = None \<Longrightarrow>
           snapshots (fst res) = py_slice_to (snapshots s) (current_history_index s + 1) @ [the (original s)]"
proof -
  let ?t = "restore_original r s"
  have pt: "processed_image ?t = Some (length (heap s))"
    using restore_original_contents(4) [OF o ok] .
  have okt: "heap_ok ?t" using ok by (rule heap_ok_restore_original)
  have idx: "current_history_index ?t = current_history_index s"
    by (simp add: restore_original_eq)
  have dp: "deref ?t (length (heap s)) = the (original s)"
    using o by (simp add: restore_original_eq deref_def original_def)
  from display_and_record_cases [OF pt, of cv]
  consider e where "res = (?t, Some e)" | "res = (add_to_history (?t\<lparr>pixmap := True\<rparr>), None)"
    unfolding res_def by blast
  then have main: "processed (fst res) = original s \<and> original (fst res) = original s
      \<and> processed_image (fst res) = Some (length (heap s))
      \<and> (snd res = None \<longrightarrow>
           snapshots (fst res) = py_slice_to (snapshots s) (current_history_index s + 1) @ [the (original s)])"
  proof cases
    case 1
    then show ?thesis using restore_original_contents [OF o ok] by simp
  next
    case 2
    have ok2: "heap_ok (?t\<lparr>pixmap := True\<rparr>)" using okt by simp
    have p2: "processed_image (?t\<lparr>pixmap := True\<rparr>) = Some (length (heap s))" using pt by simp
    have "snapshots (add_to_history (?t\<lparr>pixmap := True\<rparr>))
            = py_slice_to (snapshots s) (current_history_index s + 1) @ [the (original s)]"
      using snapshots_add_to_history [OF p2 ok2] restore_original_contents(3) [OF o ok] idx dp
      by (simp add: deref_def)
    then show ?thesis
      using 2 restore_original_contents [OF o ok] okt
      by (simp add: processed_add_to_history original_add_to_history)
  qed
  from main show "processed (fst res) = original s" by simp
  from main show "original (fst res) = original s" by simp
  from main show "processed_image (fst res) = Some (length (heap s))" by simp
  from main show "snd res = None \<Longrightarrow>
      snapshots (fst res) = py_slice_to (snapshots s) (current_history_index s + 1) @ [the (original s)]"
    by simp
qed

text \<open>
  C10. With an original image loaded, \<open>reset_image\<close> and \<open>clear_drawing\<close> are
  the same transition. In a state with valid references it makes the processed
  image a new array with the contents of the original and, when the display
  update does not raise, adds one entry with those contents to the history. With
  no original image \<open>reset_image\<close> shows a warning and \<open>clear_drawing\<close> does nothing,
  and only then do the two differ.
\<close>

theorem reset_image_clear_drawing:
  "(original_image s \<noteq> None \<longrightarrow> reset_image cv s = clear_drawing cv s)
   \<and> (original_image s = Some r \<and> heap_ok s \<longrightarrow>
        processed (fst (reset_image cv s)) = original s
        \<and> processed_image (fst (reset_image cv s)) = Some (length (heap s))
        \<and> (snd (reset_image cv s) = None \<longrightarrow>
             snapshots (fst (reset_image cv s)) =
               py_slice_to (snapshots s) (current_history_index s + 1) @ [the (original s)]))
   \<and> (original_image s = None \<longrightarrow>
        reset_image cv s = (show_message (Warning ''Warning'' ''No image to reset!'') s, None)
        \<and> clear_drawing cv s = (s, None)
        \<and> reset_image cv s \<noteq> clear_drawing cv s)"
proof -
  have same: "reset_image cv s = clear_drawing cv s" if "original_image s \<noteq> None"
    using that by (auto simp: reset_image_def clear_drawing_def)
  have loaded: "processed (fst (reset_image cv s)) = original s
        \<and> processed_image (fst (reset_image cv s)) = Some (length (heap s))
        \<and> (snd (reset_image cv s) = None \<longrightarrow>
             snapshots (fst (reset_image cv s)) =
               py_slice_to (snapshots s) (current_history_index s + 1) @ [the (original s)])"
    if o: "original_image s = Some r" and ok: "heap_ok s"
  proof -
    have "reset_image cv s =
        seq (update_image_display cv) (\<lambda>s. (add_to_history s, None)) (restore_original r s)"
      using o by (simp add: reset_image_def)
    with restore_display_record [OF o ok, of cv] show ?thesis by simp
  qed
  have "messages (show_message m s) \<noteq> messages s" for m
    by (simp add: show_message_def)
  then have neq: "show_message m s \<noteq> s" for m
    by metis
  have none: "reset_image cv s = (show_message (Warning ''Warning'' ''No image to reset!'') s, None)
        \<and> clear_drawing cv s = (s, None) \<and> reset_image cv s \<noteq> clear_drawing cv s"
    if "original_image s = None"
    using that neq by (simp add: reset_image_def clear_drawing_def)
  from same loaded none show ?thesis by blast
qed

lemmas eval_defs = init_def st_loaded_def img1_def img2_def cv_plain_def cv_paint_def
  reset_image_def clear_drawing_def restore_original_def copy_def alloc_def deref_def
  seq_def try_except_def update_image_display_def add_to_history_def py_slice_to_def
  show_message_def processed_def original_def snapshots_def heap_ok_def Let_def

theorem reset_image_clear_drawing_witness:
  "original_image st_loaded = Some 0 \<and> heap_ok st_loaded
   \<and> reset_image cv_plain st_loaded = clear_drawing cv_plain st_loaded
   \<and> processed st_loaded = Some img2
   \<and> processed (fst (reset_image cv_plain st_loaded)) = Some img1
   \<and> snd (reset_image cv_plain st_loaded) = None
   \<and> snapshots (fst (reset_image cv_plain st_loaded)) = [img1, img1]
   \<and> original_image init = None
   \<and> reset_image cv_plain init = (show_message (Warning ''Warning'' ''No image to reset!'') init, None)
   \<and> clear_drawing cv_plain init = (init, None)"
proof -
  have a: "original_image st_loaded = Some 0" by (simp add: st_loaded_def init_def)
  have b: "heap_ok st_loaded" by (simp add: st_loaded_def init_def heap_ok_def)
  have c: "original_image init = None" by (simp add: init_def)
  have d: "snd (reset_image cv_plain st_loaded) = None"
    by (simp add: eval_defs)
  have e: "original st_loaded = Some img1" "snapshots st_loaded = [img1]"
    "current_history_index st_loaded = 0" "processed st_loaded = Some img2"
    by (simp_all add: st_loaded_def init_def original_def processed_def snapshots_def deref_def)
  note T = reset_image_clear_drawing [where s = st_loaded and r = 0 and cv = cv_plain]
  from T a b have eq: "reset_image cv_plain st_loaded = clear_drawing cv_plain st_loaded"
    by blast
  from T a b have "processed (fst (reset_image cv_plain st_loaded)) = original st_loaded"
    by blast
  then have pr: "processed (fst (reset_image cv_plain st_loaded)) = Some img1"
    by (simp add: e)
  from T a b d have "snapshots (fst (reset_image cv_plain st_loaded)) =
      py_slice_to (snapshots st_loaded) (current_history_index st_loaded + 1) @ [the (original st_loaded)]"
    by blast
  then have sn: "snapshots (fst (reset_image cv_plain st_loaded)) = [img1, img1]"
    by (simp add: e py_slice_to_def)
  from reset_image_clear_drawing [where s = init and r = 0 and cv = cv_plain] c
  have i: "reset_image cv_plain init = (show_message (Warning ''Warning'' ''No image to reset!'') init, None)"
    "clear_drawing cv_plain init = (init, None)"
    by simp_all
  from a b eq e(4) pr d sn c i show ?thesis by blast
qed

section \<open>Reset after editing\<close>

lemma reachable_pinned:
  "reachable cv s \<Longrightarrow> original_image s = Some r \<Longrightarrow> app_inv (Some (r, deref s r)) s"
  using reachable_app_inv [of cv s] by (simp add: app_inv_def)

text \<open>
  C8. In a state that the event loop reaches and whose original image has contents
  \<open>a\<close>, after any list of events that load no file (filters, slider moves,
  drawing, undo, redo, frames, resets), \<open>reset_image\<close> leaves a processed image
  with contents \<open>a\<close>, and the original image still has contents \<open>a\<close>.
\<close>

theorem reset_restores_original:
  assumes reach: "reachable cv s0"
      and orig: "original s0 = Some a"
      and edits: "list_all (\<lambda>ev. \<not> loads ev) evs"
  shows "processed (fst (reset_image cv (run cv evs s0))) = Some a
       \<and> original (fst (reset_image cv (run cv evs s0))) = Some a
       \<and> original (run cv evs s0) = Some a"
proof -
  from orig obtain r where r: "original_image s0 = Some r" and a: "deref s0 r = a"
    by (auto simp: original_def)
  from reachable_pinned [OF reach r] a have "app_inv (Some (r, a)) s0" by simp
  then have inv: "app_inv (Some (r, a)) (run cv evs s0)"
    using edits by (simp add: app_inv_run)
  let ?s = "run cv evs s0"
  from inv have o: "original_image ?s = Some r" and ok: "heap_ok ?s" and d: "deref ?s r = a"
    by (simp_all add: app_inv_def)
  from o d have os: "original ?s = Some a" by (simp add: original_def)
  have "reset_image cv ?s =
      seq (update_image_display cv) (\<lambda>s. (add_to_history s, None)) (restore_original r ?s)"
    using o by (simp add: reset_image_def)
  with restore_display_record(1,2) [OF o ok, of cv] os show ?thesis by simp
qed

lemmas handler_defs = open_image_def load_image_def apply_filter_def filter_body_def
  assign_processed_def mouse_press_event_def mouse_move_event_def mouse_release_event_def
  draw_segment_def segment_endpoints_def image_coord_def shape_at_def py_int_truediv_def
  and_then_def get_image_rect_def contains_def store_def undo_def redo_def load_current_def
  py_getitem_def sharpen_kernel_def drawing_color_def drawing_thickness_def

lemma after_open_eq:
  "after_open = init\<lparr>heap := [img1, img1, img1], original_image := Some 0,
      processed_image := Some 1, image_history := [2], current_history_index := 0,
      pixmap := True\<rparr>"
  by (simp add: after_open_def eval_defs handler_defs)

lemma processed_after_edits:
  "processed (run cv_paint some_edits after_open) = Some \<lparr>shape = [1, 1, 3], data = [255, 255, 255]\<rparr>"
  by (simp add: some_edits_def after_open_eq eval_defs handler_defs)

theorem reset_restores_original_witness:
  "reachable cv_paint after_open \<and> original after_open = Some img1
   \<and> list_all (\<lambda>ev. \<not> loads ev) some_edits
   \<and> processed (run cv_paint some_edits after_open) = Some \<lparr>shape = [1, 1, 3], data = [255, 255, 255]\<rparr>
   \<and> processed (fst (reset_image cv_paint (run cv_paint some_edits after_open))) = Some img1"
proof -
  have a: "reachable cv_paint after_open"
    unfolding after_open_def by (rule reachable_step [OF reachable_init])
  have b: "original after_open = Some img1"
    by (simp add: after_open_eq original_def deref_def init_def)
  have c: "list_all (\<lambda>ev. \<not> loads ev) some_edits"
    by (simp add: some_edits_def)
  from reset_restores_original [OF a b c] a b c processed_after_edits
  show ?thesis by simp
qed

section \<open>Undo and redo over a recorded history\<close>

lemma load_current_Inr:
  assumes "py_getitem (image_history s) (current_history_index s) = Inr r"
  shows "\<exists>b. fst (load_current cv s) =
           s\<lparr>heap := heap s @ [deref s r], processed_image := Some (length (heap s)), pixmap := b\<rparr>"
proof -
  let ?s1 = "s\<lparr>heap := heap s @ [deref s r], processed_image := Some (length (heap s))\<rparr>"
  have "load_current cv s = update_image_display cv ?s1"
    using assms by (simp add: load_current_def copy_def alloc_def)
  with update_image_display_cases [of cv ?s1] show ?thesis by auto
qed

lemma snapshots_index [simp]:
  "snapshots (s\<lparr>current_history_index := i\<rparr>) = snapshots s"
  by (simp add: snapshots_def deref_def [abs_def])

lemma refs_valid_index [simp]:
  "refs_valid (s\<lparr>current_history_index := i\<rparr>) = refs_valid s"
  by (simp add: refs_valid_def)

lemma load_current_valid:
  assumes v: "refs_valid s"
      and lo: "0 \<le> current_history_index s"
      and hi: "current_history_index s < int (length (image_history s))"
  shows "image_history (fst (load_current cv s)) = image_history s
       \<and> current_history_index (fst (load_current cv s)) = current_history_index s
       \<and> snapshots (fst (load_current cv s)) = snapshots s
       \<and> processed (fst (load_current cv s)) = Some (snapshots s ! nat (current_history_index s))
       \<and> refs_valid (fst (load_current cv s))"
proof -
  let ?r = "image_history s ! nat (current_history_index s)"
  have g: "py_getitem (image_history s) (current_history_index s) = Inr ?r"
    using lo hi by (rule py_getitem_nth)
  from load_current_Inr [OF g, of cv] obtain b where
    eq: "fst (load_current cv s) =
           s\<lparr>heap := heap s @ [deref s ?r], processed_image := Some (length (heap s)), pixmap := b\<rparr>"
    by blast
  have n: "nat (current_history_index s) < length (image_history s)"
    using lo hi by simp
  have old: "\<forall>r \<in> set (image_history s). r < length (heap s)"
    using v by (simp add: refs_valid_def list_all_iff)
  have snaps: "map (\<lambda>r. (heap s @ [deref s ?r]) ! r) (image_history s) = map (\<lambda>r. heap s ! r) (image_history s)"
    using old by (simp add: nth_append)
  show ?thesis
    unfolding eq using n old snaps
    by (auto simp: snapshots_def processed_def deref_def refs_valid_def list_all_iff)
qed

lemma undo_valid:
  assumes v: "refs_valid s"
      and lo: "0 < current_history_index s"
      and hi: "current_history_index s < int (length (image_history s))"
  shows "image_history (fst (undo cv s)) = image_history s
       \<and> current_history_index (fst (undo cv s)) = current_history_index s - 1
       \<and> snapshots (fst (undo cv s)) = snapshots s
       \<and> processed (fst (undo cv s)) = Some (snapshots s ! nat (current_history_index s - 1))
       \<and> refs_valid (fst (undo cv s))"
proof -
  let ?s = "s\<lparr>current_history_index := current_history_index s - 1\<rparr>"
  have "undo cv s = load_current cv ?s" using lo by (simp add: undo_def)
  moreover have "refs_valid ?s" "0 \<le> current_history_index ?s"
    "current_history_index ?s < int (length (image_history ?s))"
    using v lo hi by simp_all
  ultimately show ?thesis
    using load_current_valid [of ?s cv] by simp
qed

lemma redo_valid:
  assumes v: "refs_valid s"
      and lo: "- 1 \<le> current_history_index s"
      and hi: "current_history_index s < int (length (image_history s)) - 1"
  shows "image_history (fst (redo cv s)) = image_history s
       \<and> current_history_index (fst (redo cv s)) = current_history_index s + 1
       \<and> snapshots (fst (redo cv s)) = snapshots s
       \<and> processed (fst (redo cv s)) = Some (snapshots s ! nat (current_history_index s + 1))
       \<and> refs_valid (fst (redo cv s))"
proof -
  let ?s = "s\<lparr>current_history_index := current_history_index s + 1\<rparr>"
  have "redo cv s = load_current cv ?s" using hi by (simp add: redo_def)
  moreover have "refs_valid ?s" "0 \<le> current_history_index ?s"
    "current_history_index ?s < int (length (image_history ?s))"
    using v lo hi by simp_all
  ultimately show ?thesis
    using load_current_valid [of ?s cv] by simp
qed

lemma times_Suc: "times (Suc k) p s = fst (p (times k p s))"
  by (simp add: times_def)

lemma times_0: "times 0 p s = s"
  by (simp add: times_def)

lemma undo_times:
  assumes v: "refs_valid s"
      and hi: "current_history_index s < int (length (image_history s))"
  shows "int k \<le> current_history_index s \<Longrightarrow>
         image_history (times k (undo cv) s) = image_history s
       \<and> current_history_index (times k (undo cv) s) = current_history_index s - int k
       \<and> snapshots (times k (undo cv) s) = snapshots s
       \<and> (0 < k \<longrightarrow> processed (times k (undo cv) s)
                        = Some (snapshots s ! nat (current_history_index s - int k)))
       \<and> refs_valid (times k (undo cv) s)"
proof (induction k)
  case 0
  show ?case using v by (simp add: times_0)
next
  case (Suc k)
  let ?u = "times k (undo cv) s"
  from Suc have ih: "image_history ?u = image_history s"
    "current_history_index ?u = current_history_index s - int k"
    "snapshots ?u = snapshots s" "refs_valid ?u"
    by simp_all
  have lo: "0 < current_history_index ?u" using Suc.prems ih(2) by simp
  have hi': "current_history_index ?u < int (length (image_history ?u))"
    using hi ih(1,2) by simp
  from undo_valid [OF ih(4) lo hi', of cv] ih
  show ?case by (simp add: times_Suc algebra_simps)
qed

lemma redo_times:
  assumes v: "refs_valid s"
      and lo: "- 1 \<le> current_history_index s"
  shows "current_history_index s + int k \<le> int (length (image_history s)) - 1 \<Longrightarrow>
         image_history (times k (redo cv) s) = image_history s
       \<and> current_history_index (times k (redo cv) s) = current_history_index s + int k
       \<and> snapshots (times k (redo cv) s) = snapshots s
       \<and> (0 < k \<longrightarrow> processed (times k (redo cv) s)
                        = Some (snapshots s ! nat (current_history_index s + int k)))
       \<and> refs_valid (times k (redo cv) s)"
proof (induction k)
  case 0
  show ?case using v by (simp add: times_0)
next
  case (Suc k)
  let ?u = "times k (redo cv) s"
  from Suc have ih: "image_history ?u = image_history s"
    "current_history_index ?u = current_history_index s + int k"
    "snapshots ?u = snapshots s" "refs_valid ?u"
    by simp_all
  have lo': "- 1 \<le> current_history_index ?u" using lo ih(2) by simp
  have hi': "current_history_index ?u < int (length (image_history ?u)) - 1"
    using Suc.prems ih(1,2) by simp
  from redo_valid [OF ih(4) lo' hi', of cv] ih
  show ?case by (simp add: times_Suc algebra_simps)
qed

lemma record_image_eq:
  "record_image img s =
     add_to_history (s\<lparr>heap := heap s @ [img], processed_image := Some (length (heap s))\<rparr>)"
  by (simp add: record_image_def alloc_def)

lemma record_image_at_end:
  assumes v: "refs_valid s"
      and e: "current_history_index s = int (length (image_history s)) - 1"
  shows "snapshots (record_image img s) = snapshots s @ [img]
       \<and> refs_valid (record_image img s)
       \<and> current_history_index (record_image img s) = int (length (image_history (record_image img s))) - 1
       \<and> processed (record_image img s) = Some img"
proof -
  have old: "\<forall>r \<in> set (image_history s). r < length (heap s)"
    using v by (simp add: refs_valid_def list_all_iff)
  have sl: "py_slice_to (image_history s) (current_history_index s + 1) = image_history s"
    using e by (simp add: py_slice_to_def)
  have m: "map (\<lambda>r. (heap s @ [img, img]) ! r) (image_history s) = map (\<lambda>r. heap s ! r) (image_history s)"
    using old by (simp add: nth_append)
  show ?thesis
    using old m
    by (auto simp: record_image_eq add_to_history_Some sl snapshots_def processed_def deref_def
          refs_valid_def list_all_iff nth_append less_Suc_eq)
qed

lemma fold_record_image:
  "refs_valid s \<Longrightarrow> current_history_index s = int (length (image_history s)) - 1 \<Longrightarrow>
   snapshots (fold record_image imgs s) = snapshots s @ imgs
   \<and> refs_valid (fold record_image imgs s)
   \<and> current_history_index (fold record_image imgs s)
       = int (length (image_history (fold record_image imgs s))) - 1
   \<and> (imgs \<noteq> [] \<longrightarrow> processed (fold record_image imgs s) = Some (last imgs))"
proof (induction imgs arbitrary: s)
  case Nil
  then show ?case by simp
next
  case (Cons img imgs)
  from record_image_at_end [OF Cons.prems, of img]
  have r: "snapshots (record_image img s) = snapshots s @ [img]"
    "refs_valid (record_image img s)"
    "current_history_index (record_image img s) = int (length (image_history (record_image img s))) - 1"
    "processed (record_image img s) = Some img"
    by simp_all
  from Cons.IH [OF r(2,3)] r(1,4) show ?case by (cases imgs) simp_all
qed

lemma length_snapshots [simp]: "length (snapshots s) = length (image_history s)"
  by (simp add: snapshots_def)

text \<open>
  C2. Starting from an empty history with index \<open>-1\<close>, record a non-empty list
  of \<open>N\<close> images one after the other. The history then holds these images in
  order and the index is \<open>N - 1\<close>. After \<open>k\<close> undos (\<open>k < N\<close>) the processed image
  is image \<open>N - 1 - k\<close>; after \<open>N - 1\<close> undos and then \<open>k\<close> redos it is image \<open>k\<close>;
  the history holds the same images throughout, and after \<open>N - 1\<close> undos and
  \<open>N - 1\<close> redos the history, its images and the index are those just after the
  \<open>N\<close> records. The images need not be distinct.
\<close>

theorem undo_redo_round_trip:
  assumes empty: "image_history s0 = []" "current_history_index s0 = - 1"
      and n: "imgs \<noteq> []"
  shows "snapshots (fold record_image imgs s0) = imgs
       \<and> current_history_index (fold record_image imgs s0) = int (length imgs) - 1
       \<and> (\<forall>k<length imgs.
             processed (times k (undo cv) (fold record_image imgs s0))
               = Some (imgs ! (length imgs - 1 - k))
           \<and> snapshots (times k (undo cv) (fold record_image imgs s0)) = imgs)
       \<and> (\<forall>k<length imgs.
             processed (times k (redo cv) (times (length imgs - 1) (undo cv) (fold record_image imgs s0)))
               = Some (imgs ! k)
           \<and> snapshots (times k (redo cv) (times (length imgs - 1) (undo cv) (fold record_image imgs s0)))
               = imgs)
       \<and> image_history (times (length imgs - 1) (redo cv)
            (times (length imgs - 1) (undo cv) (fold record_image imgs s0)))
           = image_history (fold record_image imgs s0)
       \<and> snapshots (times (length imgs - 1) (redo cv)
            (times (length imgs - 1) (undo cv) (fold record_image imgs s0)))
           = snapshots (fold record_image imgs s0)
       \<and> current_history_index (times (length imgs - 1) (redo cv)
            (times (length imgs - 1) (undo cv) (fold record_image imgs s0)))
           = current_history_index (fold record_image imgs s0)"
proof -
  let ?s = "fold record_image imgs s0"
  let ?n = "length imgs"
  let ?u = "times (?n - 1) (undo cv) ?s"
  have v0: "refs_valid s0" and e0: "current_history_index s0 = int (length (image_history s0)) - 1"
    and sn0: "snapshots s0 = []"
    using empty by (simp_all add: refs_valid_def snapshots_def)
  from fold_record_image [OF v0 e0, of imgs] sn0 n
  have s: "snapshots ?s = imgs" "refs_valid ?s"
    "current_history_index ?s = int (length (image_history ?s)) - 1"
    "processed ?s = Some (last imgs)"
    by simp_all
  have len: "length (image_history ?s) = ?n"
    using s(1) length_snapshots [of ?s] by simp
  have idx: "current_history_index ?s = int ?n - 1" using s(3) len by simp
  have hi: "current_history_index ?s < int (length (image_history ?s))" using s(3) by simp
  have pos: "0 < ?n" using n by simp
  have undo_k: "processed (times k (undo cv) ?s) = Some (imgs ! (?n - 1 - k))
      \<and> snapshots (times k (undo cv) ?s) = imgs
      \<and> image_history (times k (undo cv) ?s) = image_history ?s
      \<and> current_history_index (times k (undo cv) ?s) = int (?n - 1 - k)
      \<and> refs_valid (times k (undo cv) ?s)" if "k < ?n" for k
  proof -
    have le: "int k \<le> current_history_index ?s" using that idx by simp
    have i: "nat (current_history_index ?s - int k) = ?n - 1 - k" using that idx by simp
    have j: "current_history_index ?s - int k = int (?n - 1 - k)" using that idx by simp
    show ?thesis
    proof (cases k)
      case 0
      with j have "current_history_index ?s = int (?n - 1 - k)" by simp
      with 0 show ?thesis using s(1,2,4) n by (simp add: times_0 last_conv_nth)
    next
      case (Suc m)
      then show ?thesis using undo_times [OF s(2) hi le, of cv] s(1) i j by simp
    qed
  qed
  from undo_k [of "?n - 1"] pos
  have u: "processed ?u = Some (imgs ! 0)" "snapshots ?u = imgs"
    "image_history ?u = image_history ?s" "current_history_index ?u = 0" "refs_valid ?u"
    by simp_all
  have redo_k: "processed (times k (redo cv) ?u) = Some (imgs ! k)
      \<and> snapshots (times k (redo cv) ?u) = imgs
      \<and> image_history (times k (redo cv) ?u) = image_history ?s
      \<and> current_history_index (times k (redo cv) ?u) = int k" if "k < ?n" for k
  proof (cases k)
    case 0
    then show ?thesis using u by (simp add: times_0)
  next
    case (Suc m)
    have lo: "- 1 \<le> current_history_index ?u" using u(4) by simp
    have le: "current_history_index ?u + int k \<le> int (length (image_history ?u)) - 1"
      using that u(3,4) len by simp
    have nt: "nat (1 + int m) = Suc m" by arith
    from redo_times [OF u(5) lo le, of cv] Suc u show ?thesis by (simp add: nt)
  qed
  from redo_k [of "?n - 1"] pos
  have fin: "image_history (times (?n - 1) (redo cv) ?u) = image_history ?s"
    "snapshots (times (?n - 1) (redo cv) ?u) = snapshots ?s"
    "current_history_index (times (?n - 1) (redo cv) ?u) = current_history_index ?s"
    using s(1) idx by (simp_all add: of_nat_diff)
  from s(1) idx undo_k redo_k fin show ?thesis by simp
qed


theorem undo_redo_round_trip_witness:
  "image_history init = [] \<and> current_history_index init = - 1 \<and> [img1, img2, img3] \<noteq> []
   \<and> snapshots (fold record_image [img1, img2, img3] init) = [img1, img2, img3]
   \<and> current_history_index (fold record_image [img1, img2, img3] init) = 2
   \<and> processed (times 1 (undo cv_plain) (fold record_image [img1, img2, img3] init)) = Some img2
   \<and> processed (times 2 (undo cv_plain) (fold record_image [img1, img2, img3] init)) = Some img1
   \<and> processed (times 1 (redo cv_plain)
         (times 2 (undo cv_plain) (fold record_image [img1, img2, img3] init))) = Some img2
   \<and> processed (times 2 (redo cv_plain)
         (times 2 (undo cv_plain) (fold record_image [img1, img2, img3] init))) = Some img3
   \<and> snapshots (times 2 (redo cv_plain)
         (times 2 (undo cv_plain) (fold record_image [img1, img2, img3] init))) = [img1, img2, img3]
   \<and> current_history_index (times 2 (redo cv_plain)
         (times 2 (undo cv_plain) (fold record_image [img1, img2, img3] init))) = 2"
proof -
  let ?imgs = "[img1, img2, img3]"
  let ?s = "fold record_image ?imgs init"
  have a: "image_history init = []" and b: "current_history_index init = - 1"
    by (simp_all add: init_def)
  have c: "?imgs \<noteq> []" by simp
  have l: "length ?imgs - 1 = 2" "length ?imgs = 3" by simp_all
  note T = undo_redo_round_trip [OF a b c, of cv_plain, unfolded l]
  note s1 = T [THEN conjunct1]
  note s2 = T [THEN conjunct2, THEN conjunct1]
  note un = T [THEN conjunct2, THEN conjunct2, THEN conjunct1, rule_format]
  note re = T [THEN conjunct2, THEN conjunct2, THEN conjunct2, THEN conjunct1, rule_format]
  note fin = T [THEN conjunct2, THEN conjunct2, THEN conjunct2, THEN conjunct2]
  have u1: "processed (times 1 (undo cv_plain) ?s) = Some img2"
    using un [of 1] by simp
  have u2: "processed (times 2 (undo cv_plain) ?s) = Some img1"
    using un [of 2] by simp
  have r1: "processed (times 1 (redo cv_plain) (times 2 (undo cv_plain) ?s)) = Some img2"
    using re [of 1] by simp
  have r2: "processed (times 2 (redo cv_plain) (times 2 (undo cv_plain) ?s)) = Some img3"
    using re [of 2] by simp
  have r3: "snapshots (times 2 (redo cv_plain) (times 2 (undo cv_plain) ?s)) = ?imgs"
    using re [of 2] by simp
  have f: "current_history_index (times 2 (redo cv_plain) (times 2 (undo cv_plain) ?s)) = 2"
    using fin s2 by simp
  have s2': "current_history_index ?s = 2" using s2 by simp
  from a b c s1 s2' u1 u2 r1 r2 r3 f show ?thesis by blast
qed

section \<open>A filter that raises\<close>

lemma assign_processed_raises:
  "snd (assign_processed f s) = Some e \<Longrightarrow> assign_processed f s = (s, Some e)"
  by (auto simp: assign_processed_def alloc_def split: option.splits sum.splits)

lemma filter_body_raises:
  assumes "filter_name \<noteq> ''Grayscale''" and "snd (filter_body cv filter_name s) = Some e"
  shows "filter_body cv filter_name s = (s, Some e)"
  using assms by (auto simp: filter_body_def dest: assign_processed_raises split: if_splits)

text \<open>
  Every filter but Grayscale assigns \<open>processed_image\<close> once, from the finished
  result: when its transform raises, the handler shows the error and nothing else
  has changed.
\<close>

lemma apply_filter_raises:
  assumes "processed_image s \<noteq> None" and "filter_name \<noteq> ''Grayscale''"
      and "snd (filter_body cv filter_name s) = Some e"
  shows "apply_filter cv filter_name s =
           (show_message (Critical ''Error'' (''Failed to apply filter: '' @ str e)) s, None)"
  using assms filter_body_raises [OF assms(2,3)]
  by (auto simp: apply_filter_def try_except_def seq_def)

text \<open>The same holds for Grayscale when its first conversion raises.\<close>

lemma apply_filter_grayscale_first_raises:
  assumes "processed_image s = Some p" and "cvtColor cv (deref s p) COLOR_BGR2GRAY = Inl e"
  shows "apply_filter cv ''Grayscale'' s =
           (show_message (Critical ''Error'' (''Failed to apply filter: '' @ str e)) s, None)"
  using assms
  by (simp add: apply_filter_def try_except_def seq_def filter_body_def assign_processed_def)

text \<open>
  C4 says that a filter whose transform raises reports the error, leaves the
  processed image as it was and adds no history entry. The Grayscale branch
  assigns the grey intermediate image to \<open>processed_image\<close> (line 276) before the
  second conversion (line 277). Evaluated where the first conversion succeeds and
  the second raises: the error is reported and the history is unchanged, but the
  processed image is now the grey image of two axes, not the image before.
\<close>

theorem grayscale_failure_changes_image:
  "processed_image st_loaded = Some 1
   \<and> processed st_loaded = Some img2
   \<and> snd (filter_body cv_no_memory ''Grayscale'' st_loaded) = Some (cv2_error ''Insufficient memory'')
   \<and> snd (apply_filter cv_no_memory ''Grayscale'' st_loaded) = None
   \<and> messages (fst (apply_filter cv_no_memory ''Grayscale'' st_loaded))
        = [Critical ''Error'' ''Failed to apply filter: Insufficient memory'']
   \<and> image_history (fst (apply_filter cv_no_memory ''Grayscale'' st_loaded)) = image_history st_loaded
   \<and> processed (fst (apply_filter cv_no_memory ''Grayscale'' st_loaded))
        = Some \<lparr>shape = [1, 1], data = [40]\<rparr>
   \<and> processed (fst (apply_filter cv_no_memory ''Grayscale'' st_loaded)) \<noteq> processed st_loaded"
  by (simp add: eval_defs handler_defs cv_no_memory_def)

section \<open>Mapping a stroke to the image\<close>

lemma st_stroke_reached:
  "st_stroke = run cv_plain [OpenImage ''a.png'' (Some img_square), MousePress (150, 0)] init"
  by (simp add: st_stroke_def img_square_def eval_defs handler_defs)

text \<open>
  C5 says that the pointer-move handler maps label coordinates to image pixels
  through the scale and the centring offset of the pixmap shown. \<open>get_image_rect\<close>
  returns the rectangle of the whole label instead. Evaluated for a square image of
  100 by 100 in the label of 1200 by 900, where the pixmap covers the rectangle
  \<open>(150, 0, 900, 900)\<close>: a stroke from \<open>(150, 0)\<close> to \<open>(1049, 899)\<close>, corner to corner
  of the pixmap, should run from \<open>(0, 0)\<close> to \<open>(99, 99)\<close> in the image; the handler
  draws from \<open>(12, 0)\<close> to \<open>(87, 99)\<close>.
\<close>

theorem stroke_endpoints_ignore_pixmap_rect:
  "get_image_rect st_stroke = Some (0, 0, 1200, 900)
   \<and> contains (0, 0, 1200, 900) (1049, 899)
   \<and> spec_pixmap_rect (1200, 900) (100, 100) = (150, 0, 900, 900)
   \<and> segment_endpoints (0, 0, 1200, 900) img_square (150, 0) (1049, 899)
        = Inr ((12, 0), (87, 99))
   \<and> spec_segment_endpoints (1200, 900) img_square (150, 0) (1049, 899)
        = Inr ((0, 0), (99, 99))
   \<and> draw_segment cv (0, 0, 1200, 900) (150, 0) (1049, 899) st_stroke
        = (case line cv img_square (12, 0) (87, 99) (0, 255, 0) 2 of
             Inl e \<Rightarrow> (st_stroke, Some e)
           | Inr img \<Rightarrow> (store 1 img st_stroke, None))
   \<and> mouse_move_event cv (1049, 899) st_stroke
        = seq (draw_segment cv (0, 0, 1200, 900) (150, 0) (1049, 899))
            (seq (update_image_display cv) (\<lambda>s. (s\<lparr>last_point := Some (1049, 899)\<rparr>, None)))
            st_stroke"
proof -
  have r: "get_image_rect st_stroke = Some (0, 0, 1200, 900)"
    by (simp add: get_image_rect_def st_stroke_def init_def)
  have c: "contains (0, 0, 1200, 900) (1049, 899)"
    by (simp add: contains_def)
  have p: "spec_pixmap_rect (1200, 900) (100, 100) = (150, 0, 900, 900)"
    by (simp add: spec_pixmap_rect_def)
  have sh: "shape_at img_square 0 = Inr 100" "shape_at img_square (Suc 0) = Inr 100"
    by (simp_all add: shape_at_def img_square_def)
  have e: "segment_endpoints (0, 0, 1200, 900) img_square (150, 0) (1049, 899)
        = Inr ((12, 0), (87, 99))"
    by (simp add: segment_endpoints_def image_coord_def sh and_then_def py_int_truediv_def)
  have s: "spec_segment_endpoints (1200, 900) img_square (150, 0) (1049, 899)
        = Inr ((0, 0), (99, 99))"
    by (simp add: spec_segment_endpoints_def p segment_endpoints_def image_coord_def sh
          and_then_def py_int_truediv_def)
  have d: "deref st_stroke (Suc 0) = img_square" "processed_image st_stroke = Some 1"
    by (simp_all add: st_stroke_def init_def deref_def)
  have dr: "draw_segment cv (0, 0, 1200, 900) (150, 0) (1049, 899) st_stroke
        = (case line cv img_square (12, 0) (87, 99) (0, 255, 0) 2 of
             Inl e \<Rightarrow> (st_stroke, Some e)
           | Inr img \<Rightarrow> (store 1 img st_stroke, None))"
    by (simp add: draw_segment_def d e and_then_def drawing_color_def drawing_thickness_def
          cong: sum.case_cong)
  have st: "is_drawing st_stroke" "last_point st_stroke = Some (150, 0)"
    by (simp_all add: st_stroke_def init_def)
  have mv: "mouse_move_event cv (1049, 899) st_stroke
        = seq (draw_segment cv (0, 0, 1200, 900) (150, 0) (1049, 899))
            (seq (update_image_display cv) (\<lambda>s. (s\<lparr>last_point := Some (1049, 899)\<rparr>, None)))
            st_stroke"
    by (simp add: mouse_move_event_def st d r c)
  from r c p e s dr mv show ?thesis by blast
qed

section \<open>The hue step\<close>

text \<open>
  The part of the hue filter that is in the program: line 298 on one byte. On a hue
  below 180 it adds 30 modulo 180, so six steps give the byte back. What the whole
  filter does to the hue of an image also depends on the two conversions of
  \<open>cv2.cvtColor\<close> around it.
\<close>

lemma unat_hue_byte: "unat h < 180 \<Longrightarrow> unat (hue_byte h) = (unat h + 30) mod 180"
proof -
  assume a: "unat h < 180"
  have "unat (h + 30) = unat h + 30"
    using a by (simp add: unat_word_ariths)
  then show ?thesis by (simp add: hue_byte_def unat_mod)
qed

lemma unat_hue_byte_funpow:
  "unat h < 180 \<Longrightarrow> unat ((hue_byte ^^ n) h) = (unat h + 30 * n) mod 180"
proof (induction n)
  case 0
  then show ?case by simp
next
  case (Suc n)
  have "unat ((hue_byte ^^ n) h) < 180"
    using Suc by simp
  from unat_hue_byte [OF this] Suc show ?case
    by (simp add: mod_simps ac_simps)
qed

lemma hue_byte_six: "h < 180 \<Longrightarrow> (hue_byte ^^ 6) h = h"
proof -
  assume "h < 180"
  then have a: "unat h < 180" by (simp add: word_less_nat_alt)
  from unat_hue_byte_funpow [OF a, of 6] a
  have "unat ((hue_byte ^^ 6) h) = unat h" by simp
  then show ?thesis by (simp add: word_unat_eq_iff)
qed

section \<open>Gaussian blur\<close>

lemma kernel_size_parity: "kernel_size v = (if v < 1 then 1 else if even v then v + 1 else v)"
proof -
  have "(v mod 2 = 0) = even v" by presburger
  then show ?thesis by (simp add: kernel_size_def Let_def)
qed

lemma assign_processed_Some:
  "processed_image s = Some p \<Longrightarrow>
   assign_processed f s =
     (case f (deref s p) of
        Inl e \<Rightarrow> (s, Some e)
      | Inr a \<Rightarrow> (s\<lparr>heap := heap s @ [a], processed_image := Some (length (heap s))\<rparr>, None))"
  by (simp add: assign_processed_def alloc_def split: sum.splits)

lemma processed_new_array:
  "processed (s\<lparr>heap := heap s @ [a], processed_image := Some (length (heap s))\<rparr>) = Some a"
  by (simp add: processed_def deref_def)

lemma processed_show_message [simp]: "processed (show_message m s) = processed s"
  by (simp add: processed_def show_message_def deref_def [abs_def])

lemma processed_after_filter_body:
  assumes img: "processed_image s = Some p"
      and fb: "filter_body cv n s = (t, None)"
      and q: "processed_image t = Some q" "q < length (heap t)"
  shows "processed (fst (apply_filter cv n s)) = processed t"
proof -
  let ?rest = "seq (update_image_display cv) (\<lambda>s. (add_to_history s, None))"
  let ?h = "\<lambda>e s. (show_message (Critical ''Error'' (''Failed to apply filter: '' @ str e)) s, None)"
  have ap: "apply_filter cv n s = try_except ?rest ?h t"
    using img fb by (simp add: apply_filter_def try_except_def seq_def)
  from display_and_record_cases [OF q(1), of cv]
  consider e where "?rest t = (t, Some e)"
    | "?rest t = (add_to_history (t\<lparr>pixmap := True\<rparr>), None)"
    by blast
  then show ?thesis
  proof cases
    case 1
    then show ?thesis by (simp add: ap try_except_def)
  next
    case 2
    have "deref (add_to_history (t\<lparr>pixmap := True\<rparr>)) q = deref (t\<lparr>pixmap := True\<rparr>) q"
      using q(2) by (simp add: deref_add_to_history)
    then have "processed (add_to_history (t\<lparr>pixmap := True\<rparr>)) = processed t"
      using q(1) by (simp add: processed_def deref_def)
    with 2 show ?thesis by (simp add: ap try_except_def)
  qed
qed

text \<open>
  C6. With an image loaded and a slider value from 1 to 15, the kernel size is the
  value itself when it is odd and the value plus one when it is even, and it is
  odd. The Gaussian Blur branch calls \<open>GaussianBlur\<close> on the processed image with
  that size in both directions and sigma 0: when the call returns, its result is a
  new array that becomes the processed image, also after \<open>apply_filter\<close> as a
  whole; when it raises, \<open>apply_filter\<close> only shows the error.
\<close>

theorem gaussian_blur_kernel:
  assumes lo: "1 \<le> blur_slider s" and hi: "blur_slider s \<le> 15"
      and img: "processed_image s = Some p"
  shows "kernel_size (blur_slider s) =
           (if even (blur_slider s) then blur_slider s + 1 else blur_slider s)
       \<and> odd (kernel_size (blur_slider s))
       \<and> filter_body cv ''Gaussian Blur'' s =
           (case GaussianBlur cv (deref s p)
                   (if even (blur_slider s) then blur_slider s + 1 else blur_slider s,
                    if even (blur_slider s) then blur_slider s + 1 else blur_slider s) 0 of
              Inl e \<Rightarrow> (s, Some e)
            | Inr a \<Rightarrow> (s\<lparr>heap := heap s @ [a], processed_image := Some (length (heap s))\<rparr>, None))
       \<and> (case GaussianBlur cv (deref s p)
                   (if even (blur_slider s) then blur_slider s + 1 else blur_slider s,
                    if even (blur_slider s) then blur_slider s + 1 else blur_slider s) 0 of
              Inl e \<Rightarrow>
                apply_filter cv ''Gaussian Blur'' s =
                  (show_message (Critical ''Error'' (''Failed to apply filter: '' @ str e)) s, None)
            | Inr a \<Rightarrow> processed (fst (apply_filter cv ''Gaussian Blur'' s)) = Some a)"
proof -
  let ?k = "if even (blur_slider s) then blur_slider s + 1 else blur_slider s"
  have k: "kernel_size (blur_slider s) = ?k" using lo by (simp add: kernel_size_parity)
  have odd: "odd (kernel_size (blur_slider s))" using lo by (simp add: kernel_size_parity)
  have fb: "filter_body cv ''Gaussian Blur'' s =
      (case GaussianBlur cv (deref s p) (?k, ?k) 0 of
         Inl e \<Rightarrow> (s, Some e)
       | Inr a \<Rightarrow> (s\<lparr>heap := heap s @ [a], processed_image := Some (length (heap s))\<rparr>, None))"
    using k by (simp add: filter_body_def assign_processed_Some [OF img])
  show ?thesis
  proof (cases "GaussianBlur cv (deref s p) (?k, ?k) 0")
    case (Inl e)
    with fb have r: "filter_body cv ''Gaussian Blur'' s = (s, Some e)" by simp
    have "apply_filter cv ''Gaussian Blur'' s =
        (show_message (Critical ''Error'' (''Failed to apply filter: '' @ str e)) s, None)"
      using img r by (simp add: apply_filter_def try_except_def seq_def)
    with k odd fb Inl show ?thesis by simp
  next
    case (Inr a)
    let ?t = "s\<lparr>heap := heap s @ [a], processed_image := Some (length (heap s))\<rparr>"
    from fb Inr have r: "filter_body cv ''Gaussian Blur'' s = (?t, None)" by simp
    have q1: "processed_image ?t = Some (length (heap s))" by simp
    have q2: "length (heap s) < length (heap ?t)" by simp
    have "processed (fst (apply_filter cv ''Gaussian Blur'' s)) = processed ?t"
      by (rule processed_after_filter_body [OF img r q1 q2])
    then have "processed (fst (apply_filter cv ''Gaussian Blur'' s)) = Some a"
      by (simp add: processed_new_array)
    with k odd fb Inr show ?thesis by simp
  qed
qed


theorem gaussian_blur_kernel_witness:
  "1 \<le> blur_slider (st_loaded\<lparr>blur_slider := 4\<rparr>) \<and> blur_slider (st_loaded\<lparr>blur_slider := 4\<rparr>) \<le> 15
   \<and> processed_image (st_loaded\<lparr>blur_slider := 4\<rparr>) = Some 1
   \<and> kernel_size (blur_slider (st_loaded\<lparr>blur_slider := 4\<rparr>)) = 5
   \<and> processed (fst (apply_filter cv_blur ''Gaussian Blur'' (st_loaded\<lparr>blur_slider := 4\<rparr>)))
        = Some \<lparr>shape = [1, 1, 3], data = [5, 5, 5]\<rparr>
   \<and> 1 \<le> blur_slider st_loaded \<and> blur_slider st_loaded \<le> 15
   \<and> processed_image st_loaded = Some 1
   \<and> kernel_size (blur_slider st_loaded) = 5
   \<and> processed (fst (apply_filter cv_blur ''Gaussian Blur'' st_loaded))
        = Some \<lparr>shape = [1, 1, 3], data = [5, 5, 5]\<rparr>
   \<and> processed (fst (apply_filter cv_blur ''Gaussian Blur'' (st_loaded\<lparr>blur_slider := 7\<rparr>)))
        = Some \<lparr>shape = [1, 1, 3], data = [7, 7, 7]\<rparr>"
proof -
  have f: "blur_slider (st_loaded\<lparr>blur_slider := v\<rparr>) = v"
    "processed_image (st_loaded\<lparr>blur_slider := v\<rparr>) = Some 1"
    "deref (st_loaded\<lparr>blur_slider := v\<rparr>) (Suc 0) = img2" for v
    by (simp_all add: st_loaded_def init_def deref_def)
  have g: "blur_slider st_loaded = 5" "processed_image st_loaded = Some 1"
    "deref st_loaded (Suc 0) = img2"
    by (simp_all add: st_loaded_def init_def deref_def)
  have b: "GaussianBlur cv_blur img2 (5, 5) 0 = Inr \<lparr>shape = [1, 1, 3], data = [5, 5, 5]\<rparr>"
    "GaussianBlur cv_blur img2 (7, 7) 0 = Inr \<lparr>shape = [1, 1, 3], data = [7, 7, 7]\<rparr>"
    by (simp_all add: cv_blur_def cv_plain_def img2_def)
  have r4: "kernel_size (blur_slider (st_loaded\<lparr>blur_slider := 4\<rparr>)) = 5
      \<and> processed (fst (apply_filter cv_blur ''Gaussian Blur'' (st_loaded\<lparr>blur_slider := 4\<rparr>)))
          = Some \<lparr>shape = [1, 1, 3], data = [5, 5, 5]\<rparr>"
    using gaussian_blur_kernel [of "st_loaded\<lparr>blur_slider := 4\<rparr>" 1 cv_blur]
    by (simp add: f b)
  have r5: "kernel_size (blur_slider st_loaded) = 5
      \<and> processed (fst (apply_filter cv_blur ''Gaussian Blur'' st_loaded))
          = Some \<lparr>shape = [1, 1, 3], data = [5, 5, 5]\<rparr>"
    using gaussian_blur_kernel [of st_loaded 1 cv_blur]
    by (simp add: g b)
  have r7: "processed (fst (apply_filter cv_blur ''Gaussian Blur'' (st_loaded\<lparr>blur_slider := 7\<rparr>)))
          = Some \<lparr>shape = [1, 1, 3], data = [7, 7, 7]\<rparr>"
    using gaussian_blur_kernel [of "st_loaded\<lparr>blur_slider := 7\<rparr>" 1 cv_blur]
    by (simp add: f b)
  from r4 r5 r7 f [of 4] g show ?thesis by simp
qed

end
